theory Spec2Isabelle
  imports Complex_Main "HOL-Library.Sublist"
begin

section \<open>JavaScript strings and numbers\<close>

text \<open>
  A JavaScript string is modelled as a \<^typ>\<open>string\<close>, one \<^typ>\<open>char\<close> per code unit
  (code units below 256). A value that is used in a condition is truthy when it is
  present and, for a string, not empty.
\<close>

definition truthy :: "string option \<Rightarrow> bool" where
  "truthy v = (case v of None \<Rightarrow> False | Some s \<Rightarrow> s \<noteq> [])"

text \<open>\<open>String.prototype.startsWith\<close> is \<^const>\<open>prefix\<close> with the arguments swapped.\<close>

definition startsWith :: "string \<Rightarrow> string \<Rightarrow> bool" where
  "startsWith s p = prefix p s"

text \<open>\<open>s.includes(r)\<close>: \<open>r\<close> occurs in \<open>s\<close> at some position.\<close>

fun js_includes :: "string \<Rightarrow> string \<Rightarrow> bool" where
  "js_includes [] r = (r = [])"
| "js_includes (c # cs) r = (startsWith (c # cs) r \<or> js_includes cs r)"

text \<open>Template literals render a non-negative integer in decimal.\<close>

definition digit_char :: "nat \<Rightarrow> char" where
  "digit_char d = char_of (48 + d)"

function decimal :: "nat \<Rightarrow> string" where
  "decimal n = (if n < 10 then [digit_char n] else decimal (n div 10) @ [digit_char (n mod 10)])"
  by pat_completeness auto
termination
  by (relation "measure id") auto

text \<open>
  \<open>parseInt(s, radix)\<close> for a string argument: leading white space is skipped, one sign
  is read, a radix outside 2 to 36 gives \<open>NaN\<close>, with no radix (or radix 0 or 16) a
  prefix \<open>0x\<close> or \<open>0X\<close> selects base 16, and the longest run of digits of the base is
  the value; with no digit at all the result is \<open>NaN\<close>, here \<^const>\<open>None\<close>. The
  value is kept as an unbounded integer: the comparisons made on it are against integers
  far below \<open>2^53\<close>.
\<close>

definition isWhiteSpace :: "char \<Rightarrow> bool" where
  "isWhiteSpace c = (of_char c \<in> {9, 10, 11, 12, 13, 32, 160 :: int})"

definition digitValue :: "char \<Rightarrow> int option" where
  "digitValue c =
     (let k = (of_char c :: int) in
      if 48 \<le> k \<and> k \<le> 57 then Some (k - 48)
      else if 97 \<le> k \<and> k \<le> 122 then Some (k - 87)
      else if 65 \<le> k \<and> k \<le> 90 then Some (k - 55)
      else None)"

fun digitsPrefix :: "int \<Rightarrow> string \<Rightarrow> int list" where
  "digitsPrefix R [] = []"
| "digitsPrefix R (c # cs) =
     (case digitValue c of
        None \<Rightarrow> []
      | Some d \<Rightarrow> if d < R then d # digitsPrefix R cs else [])"

definition digitsValue :: "int \<Rightarrow> int list \<Rightarrow> int" where
  "digitsValue R ds = foldl (\<lambda>acc d. acc * R + d) 0 ds"

definition parseInt :: "string \<Rightarrow> int option \<Rightarrow> int option" where
  "parseInt inputString radix =
     (let S = dropWhile isWhiteSpace inputString;
          sign = (if startsWith S ''-'' then - 1 else (1 :: int));
          S1 = (if startsWith S ''+'' \<or> startsWith S ''-'' then tl S else S);
          R0 = (case radix of None \<Rightarrow> 0 | Some r \<Rightarrow> r);
          hex = ((R0 = 0 \<or> R0 = 16) \<and> (startsWith S1 ''0x'' \<or> startsWith S1 ''0X''));
          R = (if hex then 16 else if R0 = 0 then 10 else R0);
          S2 = (if hex then drop 2 S1 else S1);
          Z = digitsPrefix R S2
      in if R0 \<noteq> 0 \<and> (R0 < 2 \<or> 36 < R0) then None
         else if Z = [] then None
         else Some (sign * digitsValue R Z))"

section \<open>Pending payments (telegramBot.js, handleSubscribe)\<close>

type_synonym user_id = string

record payment =
  reference :: string
  amount :: int
  tonAmount :: rat
  usdtAmount :: int
  timestamp :: nat

type_synonym ledger = "user_id \<rightharpoonup> payment list"

text \<open>The reference of line 292: \<open>english-bot-<userId>-<Date.now()>\<close>.\<close>

definition paymentReference :: "user_id \<Rightarrow> nat \<Rightarrow> string" where
  "paymentReference userId now = ''english-bot-'' @ userId @ ''-'' @ decimal now"

definition newPayment :: "user_id \<Rightarrow> nat \<Rightarrow> rat \<Rightarrow> int \<Rightarrow> int \<Rightarrow> payment" where
  "newPayment userId now tonAmountForUSD tonAmountNano usdt =
     \<lparr> reference = paymentReference userId now, amount = tonAmountNano,
       tonAmount = tonAmountForUSD, usdtAmount = usdt, timestamp = now \<rparr>"

text \<open>\<open>Array.prototype.slice(start)\<close>: a negative start counts from the end.\<close>

definition slice_from :: "int \<Rightarrow> 'a list \<Rightarrow> 'a list" where
  "slice_from start xs =
     (let n = int (length xs);
          k = (if start < 0 then max (n + start) 0 else min start n)
      in drop (nat k) xs)"

text \<open>\<open>this.pendingPayments.get(userId) || []\<close> (line 311).\<close>

definition list_pending :: "ledger \<Rightarrow> user_id \<Rightarrow> payment list" where
  "list_pending l userId = (case l userId of None \<Rightarrow> [] | Some ps \<Rightarrow> ps)"

text \<open>Lines 311-326: push the new payment, keep \<open>slice(-3)\<close>, store it under the user.\<close>

definition record_payment :: "user_id \<Rightarrow> payment \<Rightarrow> ledger \<Rightarrow> ledger" where
  "record_payment userId newp l =
     (let existingPayments = list_pending l userId;
          pushed = existingPayments @ [newp];
          recentPayments = slice_from (- 3) pushed
      in l(userId \<mapsto> recentPayments))"

text \<open>A sequence of record calls for one user, oldest call first.\<close>

definition record_all :: "user_id \<Rightarrow> payment list \<Rightarrow> ledger \<Rightarrow> ledger" where
  "record_all userId ps l = foldl (\<lambda>l' p. record_payment userId p l') l ps"

definition ledger_bounded :: "ledger \<Rightarrow> bool" where
  "ledger_bounded l = (\<forall>u ps. l u = Some ps \<longrightarrow> length ps \<le> 3)"

section \<open>Ledger transactions (the response of the TON API)\<close>

text \<open>
  The fields the payment check reads. A field that may be absent is an option; the
  account objects \<open>source\<close> and \<open>destination\<close> are truthy whenever present. The source
  names \<open>decoded_body.text\<close> and \<open>jetton_transfer.amount\<close> are \<open>body_text\<close> and
  \<open>transfer_amount\<close> here.
\<close>

type_synonym account = string

record jetton =
  jetton_master_address :: "string option"
  transfer_amount :: "string option"
  forward_ton_amount :: "string option"
  forward_payload :: "string option"

record body =
  body_text :: "string option"
  jetton_transfer :: "jetton option"

record message =
  source :: "account option"
  destination :: "account option"
  decoded_body :: "body option"

record transaction =
  in_msg :: "message option"
  out_msgs :: "message list"

text \<open>
  The values read from \<open>config\<close>, a module that is not among the sources:
  \<open>USDT_CONTRACT_ADDRESS\<close>, \<open>PAYMENT_CHECK.MAX_ATTEMPTS\<close>, \<open>SUBSCRIPTION_DAYS\<close>, and
  the expected token amount of line 601, the integer
  \<open>Math.floor(config.USDT_AMOUNT * config.TON_CONVERSIONS.MICRO_USDT_TO_USDT)\<close>, a
  constant of the configuration (the product is one of floating-point numbers and is
  taken as given).
\<close>

record config =
  USDT_CONTRACT_ADDRESS :: string
  expectedAmount :: int
  MAX_ATTEMPTS :: nat
  SUBSCRIPTION_DAYS :: nat

section \<open>The matcher (handleCheckPayment, lines 543-633)\<close>

text \<open>
  Lines 552-555 and 566-569: the message has a decoded body with a truthy \<open>text\<close>, and
  the text equals the reference or includes it.
\<close>

definition memo_of :: "message \<Rightarrow> string option" where
  "memo_of m = (case decoded_body m of None \<Rightarrow> None | Some b \<Rightarrow> body_text b)"

definition memo_matches :: "string \<Rightarrow> message \<Rightarrow> bool" where
  "memo_matches ref m =
     (case memo_of m of
        None \<Rightarrow> False
      | Some messageText \<Rightarrow>
          messageText \<noteq> [] \<and> (messageText = ref \<or> js_includes messageText ref))"

text \<open>Lines 565-576: the loop over \<open>tx.out_msgs\<close>, left at the first match.\<close>

fun out_msgs_memo :: "string \<Rightarrow> message list \<Rightarrow> bool" where
  "out_msgs_memo ref [] = False"
| "out_msgs_memo ref (outMsg # rest) =
     (if memo_matches ref outMsg then True else out_msgs_memo ref rest)"

text \<open>Lines 551-577: one transaction, the inbound message first, then the outbound ones.\<close>

definition tx_memo :: "string \<Rightarrow> transaction \<Rightarrow> bool" where
  "tx_memo ref tx =
     (if (case in_msg tx of None \<Rightarrow> False | Some m \<Rightarrow> memo_matches ref m) then True
      else out_msgs_memo ref (out_msgs tx))"

text \<open>Lines 550-580: the native rail, the loop over the transactions.\<close>

fun native_rail :: "string \<Rightarrow> transaction list \<Rightarrow> bool" where
  "native_rail ref [] = False"
| "native_rail ref (tx # rest) = (if tx_memo ref tx then True else native_rail ref rest)"

text \<open>Line 602: \<open>parseInt(body.jetton_transfer.amount)\<close>; an absent amount gives \<open>NaN\<close>.\<close>

definition receivedAmount :: "jetton \<Rightarrow> int option" where
  "receivedAmount jt = (case transfer_amount jt of None \<Rightarrow> None | Some a \<Rightarrow> parseInt a None)"

text \<open>Lines 593-620: one outbound message on the token rail.\<close>

definition jetton_msg :: "config \<Rightarrow> string \<Rightarrow> message \<Rightarrow> bool" where
  "jetton_msg cfg ref outMsg =
     (source outMsg \<noteq> None \<and> destination outMsg \<noteq> None \<and>
      (case decoded_body outMsg of
         None \<Rightarrow> False
       | Some b \<Rightarrow>
           (case jetton_transfer b of
              None \<Rightarrow> False
            | Some jt \<Rightarrow>
                jetton_master_address jt = Some (USDT_CONTRACT_ADDRESS cfg) \<and>
                (case receivedAmount jt of
                   None \<Rightarrow> False
                 | Some received \<Rightarrow> received \<ge> expectedAmount cfg) \<and>
                truthy (forward_ton_amount jt) \<and>
                truthy (forward_payload jt) \<and>
                (case forward_payload jt of
                   None \<Rightarrow> False
                 | Some payload \<Rightarrow>
                     payload \<noteq> [] \<and> (js_includes payload ref \<or> payload = ref)))))"

text \<open>Lines 591-622 and 588-626: the loops over the outbound messages and the transactions.\<close>

fun out_msgs_jetton :: "config \<Rightarrow> string \<Rightarrow> message list \<Rightarrow> bool" where
  "out_msgs_jetton cfg ref [] = False"
| "out_msgs_jetton cfg ref (outMsg # rest) =
     (if jetton_msg cfg ref outMsg then True else out_msgs_jetton cfg ref rest)"

fun token_rail :: "config \<Rightarrow> string \<Rightarrow> transaction list \<Rightarrow> bool" where
  "token_rail cfg ref [] = False"
| "token_rail cfg ref (tx # rest) =
     (if out_msgs_jetton cfg ref (out_msgs tx) then True else token_rail cfg ref rest)"

text \<open>
  Lines 546-633: one pending payment is checked on the native rail and, only when that
  finds nothing, on the token rail; the loop over the reversed list stops at the first
  payment found.
\<close>

definition payment_found :: "config \<Rightarrow> transaction list \<Rightarrow> payment \<Rightarrow> bool" where
  "payment_found cfg transactions paymentData =
     (if native_rail (reference paymentData) transactions then True
      else token_rail cfg (reference paymentData) transactions)"

fun scan_payments :: "config \<Rightarrow> transaction list \<Rightarrow> payment list \<Rightarrow> payment option" where
  "scan_payments cfg transactions [] = None"
| "scan_payments cfg transactions (paymentData # rest) =
     (if payment_found cfg transactions paymentData then Some paymentData
      else scan_payments cfg transactions rest)"

definition matcher :: "config \<Rightarrow> payment list \<Rightarrow> transaction list \<Rightarrow> payment option" where
  "matcher cfg paymentsToCheck transactions =
     scan_payments cfg transactions (rev paymentsToCheck)"

text \<open>
  The token-rail condition in the words of the specification: some outbound message is a
  token transfer of the configured contract, of at least the expected amount, whose
  forwarded payload contains the reference.
\<close>

definition spec_token_match :: "config \<Rightarrow> string \<Rightarrow> transaction list \<Rightarrow> bool" where
  "spec_token_match cfg ref transactions =
     (\<exists>tx \<in> set transactions. \<exists>m \<in> set (out_msgs tx). \<exists>b jt received payload.
        decoded_body m = Some b \<and> jetton_transfer b = Some jt \<and>
        jetton_master_address jt = Some (USDT_CONTRACT_ADDRESS cfg) \<and>
        receivedAmount jt = Some received \<and> received \<ge> expectedAmount cfg \<and>
        forward_payload jt = Some payload \<and> sublist ref payload)"

section \<open>The payment check (handleCheckPayment, lines 476-703)\<close>

text \<open>
  The state of the handler object that the check reads and writes, and the calls it makes
  on its collaborators. A call carries its result: whether the chat transport accepted the
  message, whether the ledger query returned, whether the store created the subscription.
  The delays between the attempts are not modelled.
\<close>

type_synonym chat_id = int

record bot =
  pendingPayments :: ledger
  checkingPayments :: "string set"

text \<open>
  The messages the handler sends, one per call site: line 480, lines 493 and 504, line
  511, line 655, line 676, line 684, line 689 (the inner catch) and line 697 (the outer
  catch).
\<close>

datatype notice =
  AlreadyChecking | NoPendingPayment | Checking | ServiceUnavailable
| PaymentConfirmed | PaymentNotFound | LoopProblem | HandlerProblem

datatype call =
  SendMessage chat_id notice bool
| GetTransactions nat bool
| CreateSubscription user_id string nat bool
| DeletePending user_id
| SendImmediateSentence chat_id user_id

text \<open>
  The collaborators as the handler sees them in one invocation: the answer of the ledger
  query at each attempt (\<^const>\<open>None\<close> when the attempt throws: \<open>axios.get\<close> fails
  or its response cannot be read; an absent \<open>transactions\<close> field is the empty list), whether
  \<open>database.createSubscription\<close> succeeds, and whether \<open>bot.sendMessage\<close> succeeds at
  each call site (every site is reached at most once in an invocation).
\<close>

record env =
  getTransactions :: "nat \<Rightarrow> transaction list option"
  createSubscription_ok :: bool
  sendMessage_ok :: "notice \<Rightarrow> bool"

datatype flow = Normal | Thrown

datatype completion = Resolved | Rejected

datatype poll_result = Found payment | NotFound | ApiError

definition checkKey :: "user_id \<Rightarrow> string" where
  "checkKey userId = ''checking_'' @ userId"

definition send :: "env \<Rightarrow> chat_id \<Rightarrow> notice \<Rightarrow> call" where
  "send e chatId n = SendMessage chatId n (sendMessage_ok e n)"

definition sent :: "env \<Rightarrow> notice \<Rightarrow> flow" where
  "sent e n = (if sendMessage_ok e n then Normal else Thrown)"

text \<open>
  Lines 522-659: the attempts. An attempt that finds a payment leaves the loop; an API
  error on the last attempt leaves the handler (line 656), on an earlier one the loop goes
  on; the loop runs out when \<open>attempt\<close> exceeds \<open>maxAttempts\<close>.
\<close>

function poll :: "env \<Rightarrow> config \<Rightarrow> payment list \<Rightarrow> nat \<Rightarrow> poll_result \<times> call list" where
  "poll e cfg paymentsToCheck attempt =
     (if attempt \<le> MAX_ATTEMPTS cfg then
        (case getTransactions e attempt of
           None \<Rightarrow>
             if attempt < MAX_ATTEMPTS cfg then
               (case poll e cfg paymentsToCheck (attempt + 1) of
                  (r, cs) \<Rightarrow> (r, GetTransactions attempt False # cs))
             else (ApiError, [GetTransactions attempt False])
         | Some transactions \<Rightarrow>
             (case matcher cfg paymentsToCheck transactions of
                Some foundPaymentData \<Rightarrow> (Found foundPaymentData, [GetTransactions attempt True])
              | None \<Rightarrow>
                  (case poll e cfg paymentsToCheck (attempt + 1) of
                     (r, cs) \<Rightarrow> (r, GetTransactions attempt True # cs))))
      else (NotFound, []))"
  by pat_completeness auto
termination
  by (relation "measure (\<lambda>(e, cfg, ps, attempt). MAX_ATTEMPTS cfg + 1 - attempt)") auto

text \<open>
  Lines 662-679: the payment was found. The subscription is created, the pending payments
  of the user are deleted, the success message is sent and the first lesson follows;
  \<open>sendImmediateSentence\<close> catches every exception of its own (lines 783-829).
\<close>

definition confirm :: "env \<Rightarrow> config \<Rightarrow> chat_id \<Rightarrow> user_id \<Rightarrow> payment \<Rightarrow> bot \<Rightarrow> flow \<times> call list \<times> bot" where
  "confirm e cfg chatId userId foundPaymentData s =
     (if createSubscription_ok e then
        (let created = CreateSubscription userId (reference foundPaymentData) (SUBSCRIPTION_DAYS cfg) True;
             s1 = s\<lparr>pendingPayments := (pendingPayments s)(userId := None)\<rparr>;
             cs = [created, DeletePending userId, send e chatId PaymentConfirmed]
         in if sendMessage_ok e PaymentConfirmed
            then (Normal, cs @ [SendImmediateSentence chatId userId], s1)
            else (Thrown, cs, s1))
      else
        (Thrown,
         [CreateSubscription userId (reference foundPaymentData) (SUBSCRIPTION_DAYS cfg) False], s))"

text \<open>Lines 517-685: the body of the inner \<open>try\<close>.\<close>

definition check_loop :: "env \<Rightarrow> config \<Rightarrow> chat_id \<Rightarrow> user_id \<Rightarrow> payment list \<Rightarrow> bot \<Rightarrow> flow \<times> call list \<times> bot" where
  "check_loop e cfg chatId userId paymentsToCheck s =
     (case poll e cfg paymentsToCheck 1 of
        (ApiError, cs) \<Rightarrow> (sent e ServiceUnavailable, cs @ [send e chatId ServiceUnavailable], s)
      | (Found foundPaymentData, cs) \<Rightarrow>
          (case confirm e cfg chatId userId foundPaymentData s of
             (f, cs', s') \<Rightarrow> (f, cs @ cs', s'))
      | (NotFound, cs) \<Rightarrow> (sent e PaymentNotFound, cs @ [send e chatId PaymentNotFound], s))"

text \<open>
  Lines 516-693: the inner \<open>try\<close> with its \<open>catch\<close> (a message, line 689) and its
  \<open>finally\<close> (the checking flag is deleted, line 692). An exception of the \<open>catch\<close>
  itself leaves the block after the \<open>finally\<close>.
\<close>

definition guarded_check_loop :: "env \<Rightarrow> config \<Rightarrow> chat_id \<Rightarrow> user_id \<Rightarrow> payment list \<Rightarrow> bot \<Rightarrow> flow \<times> call list \<times> bot" where
  "guarded_check_loop e cfg chatId userId paymentsToCheck s =
     (case check_loop e cfg chatId userId paymentsToCheck s of
        (f, cs, s1) \<Rightarrow>
          (let s2 = s1\<lparr>checkingPayments := checkingPayments s1 - {checkKey userId}\<rparr>
           in case f of
                Normal \<Rightarrow> (Normal, cs, s2)
              | Thrown \<Rightarrow> (sent e LoopProblem, cs @ [send e chatId LoopProblem], s2)))"

text \<open>
  Lines 488-694: the body of the outer \<open>try\<close>. With no entry for the user, or an empty
  one, the flag is deleted and the user is told so; otherwise the checking message is sent
  and the loop runs.
\<close>

definition no_pending :: "env \<Rightarrow> chat_id \<Rightarrow> user_id \<Rightarrow> bot \<Rightarrow> flow \<times> call list \<times> bot" where
  "no_pending e chatId userId s =
     (sent e NoPendingPayment, [send e chatId NoPendingPayment],
      s\<lparr>checkingPayments := checkingPayments s - {checkKey userId}\<rparr>)"

definition check_body :: "env \<Rightarrow> config \<Rightarrow> chat_id \<Rightarrow> user_id \<Rightarrow> bot \<Rightarrow> flow \<times> call list \<times> bot" where
  "check_body e cfg chatId userId s =
     (case pendingPayments s userId of
        None \<Rightarrow> no_pending e chatId userId s
      | Some paymentsToCheck \<Rightarrow>
          if paymentsToCheck = [] then no_pending e chatId userId s
          else if sendMessage_ok e Checking then
            (case guarded_check_loop e cfg chatId userId paymentsToCheck s of
               (f, cs, s') \<Rightarrow> (f, send e chatId Checking # cs, s'))
          else (Thrown, [send e chatId Checking], s))"

text \<open>
  Lines 478-485: the guard. No \<open>await\<close> stands between the test of the flag and its
  setting, so the two are one step for every other invocation.
\<close>

definition admitted :: "user_id \<Rightarrow> bot \<Rightarrow> bool" where
  "admitted userId s = (checkKey userId \<notin> checkingPayments s)"

definition mark_checking :: "user_id \<Rightarrow> bot \<Rightarrow> bot" where
  "mark_checking userId s = s\<lparr>checkingPayments := insert (checkKey userId) (checkingPayments s)\<rparr>"

text \<open>
  The handler: the guard, the outer \<open>try\<close> and its \<open>catch\<close> (lines 695-702), which
  sends a message and then deletes the flag. The result says whether the promise of the
  handler is resolved or rejected, which calls were made, and the state left behind.
\<close>

definition handleCheckPayment :: "env \<Rightarrow> config \<Rightarrow> chat_id \<Rightarrow> user_id \<Rightarrow> bot \<Rightarrow> completion \<times> call list \<times> bot" where
  "handleCheckPayment e cfg chatId userId s =
     (if \<not> admitted userId s then
        (if sendMessage_ok e AlreadyChecking then Resolved else Rejected,
         [send e chatId AlreadyChecking], s)
      else
        (case check_body e cfg chatId userId (mark_checking userId s) of
           (Normal, cs, s1) \<Rightarrow> (Resolved, cs, s1)
         | (Thrown, cs, s1) \<Rightarrow>
             if sendMessage_ok e HandlerProblem then
               (Resolved, cs @ [send e chatId HandlerProblem],
                s1\<lparr>checkingPayments := checkingPayments s1 - {checkKey userId}\<rparr>)
             else (Rejected, cs @ [send e chatId HandlerProblem], s1)))"

text \<open>
  The outcome of an invocation is the verdict it reaches, read off the first verdict
  message it sends; the checking message and the two error messages are no verdict.
\<close>

datatype outcome = CONFIRMED | EXHAUSTED | TRANSPORT_ERROR | ALREADY_CHECKING | NO_PENDING_PAYMENT

fun verdict :: "notice \<Rightarrow> outcome option" where
  "verdict AlreadyChecking = Some ALREADY_CHECKING"
| "verdict NoPendingPayment = Some NO_PENDING_PAYMENT"
| "verdict ServiceUnavailable = Some TRANSPORT_ERROR"
| "verdict PaymentConfirmed = Some CONFIRMED"
| "verdict PaymentNotFound = Some EXHAUSTED"
| "verdict Checking = None"
| "verdict LoopProblem = None"
| "verdict HandlerProblem = None"

fun outcome_of :: "call list \<Rightarrow> outcome option" where
  "outcome_of [] = None"
| "outcome_of (SendMessage chatId n ok # cs) =
     (case verdict n of Some v \<Rightarrow> Some v | None \<Rightarrow> outcome_of cs)"
| "outcome_of (c # cs) = outcome_of cs"

fun is_fetch :: "call \<Rightarrow> bool" where
  "is_fetch (GetTransactions attempt ok) = True"
| "is_fetch c = False"

fun is_create :: "call \<Rightarrow> bool" where
  "is_create (CreateSubscription userId ref days ok) = True"
| "is_create c = False"

fun is_delete :: "call \<Rightarrow> bool" where
  "is_delete (DeletePending userId) = True"
| "is_delete c = False"

section \<open>Event deduplication (setupEventHandlers, lines 59-119)\<close>

text \<open>
  The two sets of processed keys. The handlers never touch them, so a handler enters only
  through the way its promise ends. The result of an event says whether the handler was
  invoked for it.
\<close>

record dedup =
  processedCallbacks :: "string set"
  processedMessages :: "string set"

record callback_query =
  callback_id :: string
  callback_data :: string

record text_message =
  message_id :: nat
  from_id :: nat
  from_is_bot :: bool
  message_text :: "string option"

definition callbackId :: "callback_query \<Rightarrow> string" where
  "callbackId callbackQuery = callback_id callbackQuery @ ''_'' @ callback_data callbackQuery"

definition messageId :: "text_message \<Rightarrow> string" where
  "messageId msg = decimal (message_id msg) @ ''_'' @ decimal (from_id msg)"

text \<open>
  Lines 63-82: a callback query. A key already in the set ends the event; otherwise the
  key is added, the handler runs, and the \<open>catch\<close> of its promise deletes the key.
\<close>

definition on_callback_query :: "(callback_query \<Rightarrow> completion) \<Rightarrow> callback_query \<Rightarrow> dedup \<Rightarrow> bool \<times> dedup" where
  "on_callback_query handleCallbackQuery callbackQuery s =
     (if callbackId callbackQuery \<in> processedCallbacks s then (False, s)
      else
        (let s1 = s\<lparr>processedCallbacks := insert (callbackId callbackQuery) (processedCallbacks s)\<rparr>
         in case handleCallbackQuery callbackQuery of
              Resolved \<Rightarrow> (True, s1)
            | Rejected \<Rightarrow>
                (True, s1\<lparr>processedCallbacks := processedCallbacks s1 - {callbackId callbackQuery}\<rparr>)))"

text \<open>
  Lines 94-118: a message. Commands, messages of bots and messages without text are
  skipped; for the others the key is tested and added and the handler is invoked. Nothing
  is attached to the promise of \<open>handleMessage\<close>: however it ends, the state stays.
\<close>

definition on_message :: "(text_message \<Rightarrow> completion) \<Rightarrow> text_message \<Rightarrow> dedup \<Rightarrow> bool \<times> dedup" where
  "on_message handleMessage msg s =
     (if (case message_text msg of None \<Rightarrow> False | Some t \<Rightarrow> t \<noteq> [] \<and> startsWith t ''/'')
      then (False, s)
      else if from_is_bot msg then (False, s)
      else if truthy (message_text msg) then
        (if messageId msg \<in> processedMessages s then (False, s)
         else
           (let s1 = s\<lparr>processedMessages := insert (messageId msg) (processedMessages s)\<rparr>
            in case handleMessage msg of Resolved \<Rightarrow> (True, s1) | Rejected \<Rightarrow> (True, s1)))
      else (False, s))"

section \<open>The daily fan-out (scheduler.js, sendDailyMessages, lines 25-71)\<close>

record user_row =
  telegram_user_id :: string
  difficulty_level :: int

datatype word = WordEntry string string string | WordText string

record sentence =
  english_text :: string
  japanese_translation :: string
  word_breakdown :: "word list"

text \<open>
  The collaborators of one run: the rows of the query for active users (\<^const>\<open>None\<close>
  when it is rejected), the generation backend per level (\<^const>\<open>None\<close> when it
  throws), whether \<open>saveSentence\<close> and \<open>messageQueue.addMessage\<close> succeed for the row
  at a position, and the text \<open>createDailyMessage\<close> lays out for a sentence (a pure
  function of the sentence, lines 100-126, kept as a parameter).
\<close>

record sched_env =
  getActiveUsers :: "user_row list option"
  generateEnglishSentence :: "int \<Rightarrow> sentence option"
  saveSentence_ok :: "nat \<Rightarrow> bool"
  addMessage_ok :: "nat \<Rightarrow> bool"
  createDailyMessage :: "sentence \<Rightarrow> string"

datatype sched_call =
  Generate int bool
| SaveSentence sentence int bool
| AddMessage int string bool

text \<open>Lines 33-41: one sentence per level 1 to 5; a failed generation leaves no entry.\<close>

definition generate_level :: "sched_env \<Rightarrow> (int \<rightharpoonup> sentence) \<times> sched_call list \<Rightarrow> int \<Rightarrow> (int \<rightharpoonup> sentence) \<times> sched_call list" where
  "generate_level e acc level =
     (case acc of (difficultySentences, cs) \<Rightarrow>
        (case generateEnglishSentence e level of
           Some d \<Rightarrow> (difficultySentences(level \<mapsto> d), cs @ [Generate level True])
         | None \<Rightarrow> (difficultySentences, cs @ [Generate level False])))"

definition generate_all :: "sched_env \<Rightarrow> (int \<rightharpoonup> sentence) \<times> sched_call list" where
  "generate_all e = foldl (generate_level e) (Map.empty, []) [1, 2, 3, 4, 5]"

text \<open>
  Lines 45-64: one user. Without a sentence for the level nothing is done; otherwise the
  sentence is saved, the chat id is parsed from the user id (a user whose id is no number
  is skipped), and the message is added to the queue. An exception of \<open>saveSentence\<close> or
  \<open>addMessage\<close> is caught for this user alone.
\<close>

definition queue_user :: "sched_env \<Rightarrow> (int \<rightharpoonup> sentence) \<Rightarrow> nat \<Rightarrow> user_row \<Rightarrow> sched_call list" where
  "queue_user e difficultySentences i user =
     (case difficultySentences (difficulty_level user) of
        None \<Rightarrow> []
      | Some sentenceData \<Rightarrow>
          if \<not> saveSentence_ok e i then [SaveSentence sentenceData (difficulty_level user) False]
          else
            (case parseInt (telegram_user_id user) (Some 10) of
               None \<Rightarrow> [SaveSentence sentenceData (difficulty_level user) True]
             | Some chatId \<Rightarrow>
                 [SaveSentence sentenceData (difficulty_level user) True,
                  AddMessage chatId (createDailyMessage e sentenceData) (addMessage_ok e i)]))"

fun queue_users :: "sched_env \<Rightarrow> (int \<rightharpoonup> sentence) \<Rightarrow> nat \<Rightarrow> user_row list \<Rightarrow> sched_call list" where
  "queue_users e difficultySentences i [] = []"
| "queue_users e difficultySentences i (user # rest) =
     queue_user e difficultySentences i user @ queue_users e difficultySentences (Suc i) rest"

text \<open>The run; its outer \<open>catch\<close> (line 68) only logs, so the promise is always resolved.\<close>

definition sendDailyMessages :: "sched_env \<Rightarrow> completion \<times> sched_call list" where
  "sendDailyMessages e =
     (case getActiveUsers e of
        None \<Rightarrow> (Resolved, [])
      | Some activeUsers \<Rightarrow>
          (case generate_all e of
             (difficultySentences, cs) \<Rightarrow>
               (Resolved, cs @ queue_users e difficultySentences 0 activeUsers)))"

fun is_add :: "sched_call \<Rightarrow> bool" where
  "is_add (AddMessage chatId message ok) = True"
| "is_add c = False"

text \<open>
  The enqueue call a row gets: one, with the text of the sentence of its level, when that
  sentence was generated, the sentence was saved and the user id is a number; none
  otherwise.
\<close>

definition enqueue_of :: "sched_env \<Rightarrow> nat \<Rightarrow> user_row \<Rightarrow> sched_call list" where
  "enqueue_of e i user =
     (if difficulty_level user \<in> {1, 2, 3, 4, 5} then
        (case generateEnglishSentence e (difficulty_level user) of
           None \<Rightarrow> []
         | Some d \<Rightarrow>
             (case parseInt (telegram_user_id user) (Some 10) of
                None \<Rightarrow> []
              | Some chatId \<Rightarrow>
                  if saveSentence_ok e i
                  then [AddMessage chatId (createDailyMessage e d) (addMessage_ok e i)]
                  else []))
      else [])"

section \<open>The memos of a transaction, and concrete inputs\<close>

text \<open>
  The texts a transaction carries: that of its inbound message and those of its outbound
  messages, where present.
\<close>

definition texts :: "message \<Rightarrow> string list" where
  "texts m = (case memo_of m of None \<Rightarrow> [] | Some t \<Rightarrow> [t])"

definition memos :: "transaction \<Rightarrow> string list" where
  "memos tx =
     (case in_msg tx of None \<Rightarrow> [] | Some m \<Rightarrow> texts m) @ concat (map texts (out_msgs tx))"

text \<open>
  A configuration with the fee of one USDT in micro units, three attempts and thirty
  days; a pending payment of user 42 created at a given time; a transaction with a token
  transfer in its outbound message; a transaction with a text on its inbound message.
\<close>

definition ex_cfg :: config where
  "ex_cfg = \<lparr> USDT_CONTRACT_ADDRESS = ''EQusdt'', expectedAmount = 1000000,
              MAX_ATTEMPTS = 3, SUBSCRIPTION_DAYS = 30 \<rparr>"

definition ex_pay :: "nat \<Rightarrow> payment" where
  "ex_pay now = newPayment ''42'' now (2 / 5) 400000000 1000000"

definition ex_jetton :: "string option \<Rightarrow> string \<Rightarrow> jetton" where
  "ex_jetton fwd payload =
     \<lparr> jetton_master_address = Some ''EQusdt'', transfer_amount = Some ''1000000'',
       forward_ton_amount = fwd, forward_payload = Some payload \<rparr>"

definition ex_jetton_msg :: "string option \<Rightarrow> string \<Rightarrow> message" where
  "ex_jetton_msg fwd payload =
     \<lparr> source = Some ''EQsender'', destination = Some ''EQwallet'',
       decoded_body = Some \<lparr> body_text = None, jetton_transfer = Some (ex_jetton fwd payload) \<rparr> \<rparr>"

definition ex_jetton_tx :: "string option \<Rightarrow> string \<Rightarrow> transaction" where
  "ex_jetton_tx fwd payload = \<lparr> in_msg = None, out_msgs = [ex_jetton_msg fwd payload] \<rparr>"

definition ex_memo_tx :: "string \<Rightarrow> transaction" where
  "ex_memo_tx t =
     \<lparr> in_msg = Some \<lparr> source = Some ''EQsender'', destination = Some ''EQwallet'',
                        decoded_body = Some \<lparr> body_text = Some t, jetton_transfer = None \<rparr> \<rparr>,
       out_msgs = [] \<rparr>"

section \<open>Calls of the payment check, and concrete states\<close>

text \<open>The call of the ledger query at an attempt, with its result.\<close>

definition fetched :: "env \<Rightarrow> nat \<Rightarrow> call" where
  "fetched e attempt = GetTransactions attempt (getTransactions e attempt \<noteq> None)"

text \<open>An attempt that finds nothing: the query fails, or the matcher returns no payment.\<close>

definition no_match :: "env \<Rightarrow> config \<Rightarrow> payment list \<Rightarrow> nat \<Rightarrow> bool" where
  "no_match e cfg ps attempt =
     (case getTransactions e attempt of None \<Rightarrow> True | Some txs \<Rightarrow> matcher cfg ps txs = None)"

text \<open>
  The messages from a verdict message on: when the chat transport rejects it, the message
  of the inner catch follows, and when that is rejected too, the message of the outer catch.
\<close>

definition tail_calls :: "env \<Rightarrow> chat_id \<Rightarrow> notice \<Rightarrow> call list" where
  "tail_calls e chatId n =
     send e chatId n #
       (if sendMessage_ok e n then []
        else send e chatId LoopProblem #
          (if sendMessage_ok e LoopProblem then [] else [send e chatId HandlerProblem]))"

text \<open>The promise is rejected only when all three of these messages are.\<close>

definition tail_result :: "env \<Rightarrow> notice \<Rightarrow> completion" where
  "tail_result e n =
     (if sendMessage_ok e n \<or> sendMessage_ok e LoopProblem \<or> sendMessage_ok e HandlerProblem
      then Resolved else Rejected)"

text \<open>
  A handler state with one pending payment of user 42 and no check in flight, and an
  environment given by the ledger answers, the store and a chat transport that accepts
  or rejects every message.
\<close>

definition ex_bot :: bot where
  "ex_bot = \<lparr> pendingPayments = [''42'' \<mapsto> [ex_pay 1001]], checkingPayments = {} \<rparr>"

definition ex_env :: "(nat \<Rightarrow> transaction list option) \<Rightarrow> bool \<Rightarrow> bool \<Rightarrow> env" where
  "ex_env ledger store chat =
     \<lparr> getTransactions = ledger, createSubscription_ok = store, sendMessage_ok = (\<lambda>n. chat) \<rparr>"

section \<open>Concrete events and runs\<close>

text \<open>
  Nothing processed yet; a text message of user 42; a press of the payment button; and
  the messages that reach the test of the key (text present, no command, no bot).
\<close>

definition ex_dedup :: dedup where
  "ex_dedup = \<lparr> processedCallbacks = {}, processedMessages = {} \<rparr>"

definition ex_msg :: text_message where
  "ex_msg = \<lparr> message_id = 7, from_id = 42, from_is_bot = False, message_text = Some ''hello'' \<rparr>"

definition ex_callback :: callback_query where
  "ex_callback = \<lparr> callback_id = ''9001'', callback_data = ''check_payment_42'' \<rparr>"

definition text_event :: "text_message \<Rightarrow> bool" where
  "text_event msg =
     (truthy (message_text msg) \<and> \<not> from_is_bot msg
      \<and> \<not> (case message_text msg of None \<Rightarrow> False | Some t \<Rightarrow> startsWith t ''/''))"

text \<open>
  A sentence; a run with given rows, generation results and save results, a queue that
  accepts every message, and the English text as the message; a row.
\<close>

definition ex_sentence :: "string \<Rightarrow> sentence" where
  "ex_sentence t = \<lparr> english_text = t, japanese_translation = ''ja'', word_breakdown = [WordText t] \<rparr>"

definition ex_sched :: "user_row list \<Rightarrow> (int \<Rightarrow> sentence option) \<Rightarrow> (nat \<Rightarrow> bool) \<Rightarrow> sched_env" where
  "ex_sched rows generate saved =
     \<lparr> getActiveUsers = Some rows, generateEnglishSentence = generate,
       saveSentence_ok = saved, addMessage_ok = (\<lambda>i. True), createDailyMessage = english_text \<rparr>"

definition ex_user :: "string \<Rightarrow> int \<Rightarrow> user_row" where
  "ex_user uid level = \<lparr> telegram_user_id = uid, difficulty_level = level \<rparr>"

section \<open>Facts about strings\<close>

lemma includes_sublist: "js_includes s r = sublist r s"
  by (induction s) (auto simp: startsWith_def sublist_Cons_right)

lemma includes_self: "js_includes r r"
  by (simp add: includes_sublist)

lemma includes_nonempty: "js_includes s r \<Longrightarrow> r \<noteq> [] \<Longrightarrow> s \<noteq> []"
  by (cases s) auto

lemma paymentReference_nonempty: "paymentReference u now \<noteq> []"
  by (simp add: paymentReference_def)

section \<open>The bounded ledger\<close>

lemma slice_last3: "slice_from (- 3) xs = drop (length xs - 3) xs"
proof -
  have "nat (max (int (length xs) - 3) 0) = length xs - 3"
    by arith
  then show ?thesis
    by (simp add: slice_from_def Let_def)
qed

lemma list_pending_record:
  "list_pending (record_payment u p l) v =
     (if v = u then drop (length (list_pending l u) - 2) (list_pending l u @ [p])
      else list_pending l v)"
  by (simp add: record_payment_def list_pending_def slice_last3 Let_def)

lemma record_payment_bounded:
  "length (list_pending (record_payment u p l) u) \<le> 3"
  by (simp add: list_pending_record)

lemma ledger_bounded_record:
  assumes "ledger_bounded l"
  shows "ledger_bounded (record_payment u p l)"
  using assms
  by (auto simp: ledger_bounded_def record_payment_def slice_last3 Let_def)

lemma ledger_bounded_record_all:
  "ledger_bounded l \<Longrightarrow> ledger_bounded (record_all u ps l)"
  unfolding record_all_def
  by (induction ps arbitrary: l) (simp_all add: ledger_bounded_record)

lemma drop_last3_step:
  "drop (length (drop (length xs - 3) xs) - 2) (drop (length xs - 3) xs @ [p])
     = drop (length (xs @ [p]) - 3) (xs @ [p])"
proof (cases "length xs \<le> 3")
  case True
  then show ?thesis by simp
next
  case False
  then have "Suc (length xs - 3) = length xs - 2"
    by arith
  with False show ?thesis by simp
qed

lemma list_pending_record_all:
  assumes "length (list_pending l u) \<le> 3"
  shows "list_pending (record_all u ps l) u
           = drop (length (list_pending l u @ ps) - 3) (list_pending l u @ ps)"
  using assms
proof (induction ps rule: rev_induct)
  case Nil
  then show ?case by (simp add: record_all_def)
next
  case (snoc p ps)
  have "list_pending (record_all u (ps @ [p]) l) u
          = list_pending (record_payment u p (record_all u ps l)) u"
    by (simp add: record_all_def)
  also have "\<dots> = drop (length (list_pending (record_all u ps l) u) - 2)
                      (list_pending (record_all u ps l) u @ [p])"
    by (simp add: list_pending_record)
  also have "\<dots> = drop (length ((list_pending l u @ ps) @ [p]) - 3)
                      ((list_pending l u @ ps) @ [p])"
    using snoc by (simp only: drop_last3_step)
  finally show ?case by simp
qed

lemma record_all_other_user:
  "v \<noteq> u \<Longrightarrow> record_all u ps l v = l v"
  unfolding record_all_def
  by (induction ps arbitrary: l) (simp_all add: record_payment_def Let_def)

text \<open>
  C8. The ledger keeps at most three pending payments per user, and every record
  operation preserves that bound: a record appends the new payment at the end and drops
  from the front what exceeds three. After any sequence of record calls for a user the
  retained sequence is the last \<open>min n 3\<close> payments of the \<open>n\<close> recorded ones (those
  already retained counted in), in creation order, the most recent last; the entries of
  the other users are untouched.
\<close>

theorem C8_ledger_keeps_last_three:
  assumes "ledger_bounded l"
  shows "ledger_bounded (record_payment u p l)
       \<and> list_pending (record_payment u p l) u
           = drop (length (list_pending l u @ [p]) - 3) (list_pending l u @ [p])
       \<and> ledger_bounded (record_all u ps l)
       \<and> list_pending (record_all u ps l) u
           = drop (length (list_pending l u @ ps) - 3) (list_pending l u @ ps)
       \<and> length (list_pending (record_all u ps l) u) = min (length (list_pending l u @ ps)) 3
       \<and> (l u = None \<longrightarrow> list_pending (record_all u ps l) u = drop (length ps - 3) ps)
       \<and> (\<forall>v. v \<noteq> u \<longrightarrow> record_all u ps l v = l v)"
proof -
  have old: "length (list_pending l u) \<le> 3"
    using assms by (auto simp: ledger_bounded_def list_pending_def split: option.splits)
  have all: "list_pending (record_all u ps l) u
           = drop (length (list_pending l u @ ps) - 3) (list_pending l u @ ps)"
    by (rule list_pending_record_all [OF old])
  have one: "list_pending (record_payment u p l) u
           = drop (length (list_pending l u @ [p]) - 3) (list_pending l u @ [p])"
    by (simp add: list_pending_record)
  have len: "length (list_pending (record_all u ps l) u) = min (length (list_pending l u @ ps)) 3"
    unfolding all by simp
  have fresh: "l u = None \<longrightarrow> list_pending (record_all u ps l) u = drop (length ps - 3) ps"
    unfolding all by (simp add: list_pending_def)
  show ?thesis
    using ledger_bounded_record [OF assms] ledger_bounded_record_all [OF assms]
      all one len fresh record_all_other_user
    by blast
qed

theorem C8_ledger_keeps_last_three_witness:
  "ledger_bounded Map.empty
   \<and> list_pending (record_all ''42'' [ex_pay 1, ex_pay 2, ex_pay 3, ex_pay 4] Map.empty) ''42''
       = [ex_pay 2, ex_pay 3, ex_pay 4]"
proof -
  have h: "ledger_bounded Map.empty"
    by (simp add: ledger_bounded_def)
  show ?thesis
    using h C8_ledger_keeps_last_three [OF h, of "''42''" "ex_pay 1" "[ex_pay 1, ex_pay 2, ex_pay 3, ex_pay 4]"]
    by simp
qed


section \<open>The matcher\<close>

lemma out_msgs_memo_iff: "out_msgs_memo ref ms \<longleftrightarrow> (\<exists>m \<in> set ms. memo_matches ref m)"
  by (induction ms) auto

lemma native_rail_iff: "native_rail ref txs \<longleftrightarrow> (\<exists>tx \<in> set txs. tx_memo ref tx)"
  by (induction txs) auto

lemma out_msgs_jetton_iff: "out_msgs_jetton cfg ref ms \<longleftrightarrow> (\<exists>m \<in> set ms. jetton_msg cfg ref m)"
  by (induction ms) auto

lemma token_rail_iff:
  "token_rail cfg ref txs \<longleftrightarrow> (\<exists>tx \<in> set txs. \<exists>m \<in> set (out_msgs tx). jetton_msg cfg ref m)"
  by (induction txs) (auto simp: out_msgs_jetton_iff)

lemma memo_matches_iff:
  "memo_matches ref m \<longleftrightarrow> (\<exists>t. memo_of m = Some t \<and> t \<noteq> [] \<and> sublist ref t)"
  by (auto simp: memo_matches_def includes_sublist split: option.splits)

lemma jetton_msg_iff:
  "jetton_msg cfg ref m \<longleftrightarrow>
     (\<exists>b jt received payload.
        decoded_body m = Some b \<and> jetton_transfer b = Some jt \<and>
        jetton_master_address jt = Some (USDT_CONTRACT_ADDRESS cfg) \<and>
        receivedAmount jt = Some received \<and> received \<ge> expectedAmount cfg \<and>
        forward_payload jt = Some payload \<and> sublist ref payload \<and>
        source m \<noteq> None \<and> destination m \<noteq> None \<and>
        truthy (forward_ton_amount jt) \<and> payload \<noteq> [])"
  by (auto simp: jetton_msg_def includes_sublist truthy_def split: option.splits)

lemma scan_payments_find: "scan_payments cfg txs ps = find (payment_found cfg txs) ps"
  by (induction ps) auto

lemma scan_payments_None:
  "scan_payments cfg txs ps = None \<longleftrightarrow> (\<forall>p \<in> set ps. \<not> payment_found cfg txs p)"
  by (induction ps) auto

lemma scan_payments_Some:
  "scan_payments cfg txs ps = Some p \<longleftrightarrow>
     (\<exists>before after. ps = before @ p # after \<and> payment_found cfg txs p
        \<and> (\<forall>q \<in> set before. \<not> payment_found cfg txs q))"
proof (induction ps)
  case Nil
  then show ?case by simp
next
  case (Cons q ps)
  show ?case
  proof (cases "payment_found cfg txs q")
    case True
    have "(\<exists>before after. q # ps = before @ p # after \<and> payment_found cfg txs p
            \<and> (\<forall>r \<in> set before. \<not> payment_found cfg txs r)) \<longleftrightarrow> q = p"
    proof
      assume "\<exists>before after. q # ps = before @ p # after \<and> payment_found cfg txs p
            \<and> (\<forall>r \<in> set before. \<not> payment_found cfg txs r)"
      then obtain before after where e: "q # ps = before @ p # after"
        and n: "\<forall>r \<in> set before. \<not> payment_found cfg txs r" by blast
      show "q = p"
      proof (cases before)
        case Nil
        with e show ?thesis by simp
      next
        case (Cons b bs)
        with e have "b = q" by simp
        with Cons n True show ?thesis by simp
      qed
    next
      assume "q = p"
      with True have "q # ps = [] @ p # ps \<and> payment_found cfg txs p
            \<and> (\<forall>r \<in> set []. \<not> payment_found cfg txs r)" by simp
      then show "\<exists>before after. q # ps = before @ p # after \<and> payment_found cfg txs p
            \<and> (\<forall>r \<in> set before. \<not> payment_found cfg txs r)" by blast
    qed
    with True show ?thesis by auto
  next
    case False
    have "(\<exists>before after. q # ps = before @ p # after \<and> payment_found cfg txs p
            \<and> (\<forall>r \<in> set before. \<not> payment_found cfg txs r))
          \<longleftrightarrow> (\<exists>before after. ps = before @ p # after \<and> payment_found cfg txs p
            \<and> (\<forall>r \<in> set before. \<not> payment_found cfg txs r))"
    proof
      assume "\<exists>before after. q # ps = before @ p # after \<and> payment_found cfg txs p
            \<and> (\<forall>r \<in> set before. \<not> payment_found cfg txs r)"
      then obtain before after where e: "q # ps = before @ p # after"
        and f: "payment_found cfg txs p"
        and n: "\<forall>r \<in> set before. \<not> payment_found cfg txs r" by blast
      show "\<exists>before after. ps = before @ p # after \<and> payment_found cfg txs p
            \<and> (\<forall>r \<in> set before. \<not> payment_found cfg txs r)"
      proof (cases before)
        case Nil
        with e f False show ?thesis by simp
      next
        case (Cons b bs)
        with e have "ps = bs @ p # after" by simp
        moreover from Cons n have "\<forall>r \<in> set bs. \<not> payment_found cfg txs r" by simp
        ultimately show ?thesis using f by blast
      qed
    next
      assume "\<exists>before after. ps = before @ p # after \<and> payment_found cfg txs p
            \<and> (\<forall>r \<in> set before. \<not> payment_found cfg txs r)"
      then obtain before after where e: "ps = before @ p # after"
        and f: "payment_found cfg txs p"
        and n: "\<forall>r \<in> set before. \<not> payment_found cfg txs r" by blast
      from e have "q # ps = (q # before) @ p # after" by simp
      moreover from n False have "\<forall>r \<in> set (q # before). \<not> payment_found cfg txs r" by simp
      ultimately show "\<exists>before after. q # ps = before @ p # after \<and> payment_found cfg txs p
            \<and> (\<forall>r \<in> set before. \<not> payment_found cfg txs r)" using f by blast
    qed
    with False Cons.IH show ?thesis by simp
  qed
qed

lemma in_texts: "t \<in> set (texts m) \<longleftrightarrow> memo_of m = Some t"
  by (cases "memo_of m") (auto simp: texts_def)

lemma in_memos:
  "t \<in> set (memos tx) \<longleftrightarrow>
     (\<exists>m. (in_msg tx = Some m \<or> m \<in> set (out_msgs tx)) \<and> memo_of m = Some t)"
  by (cases "in_msg tx") (auto simp: memos_def in_texts)

lemma tx_memo_iff:
  "tx_memo ref tx \<longleftrightarrow> (\<exists>t \<in> set (memos tx). t \<noteq> [] \<and> sublist ref t)"
proof -
  have "tx_memo ref tx \<longleftrightarrow>
      (\<exists>m. (in_msg tx = Some m \<or> m \<in> set (out_msgs tx)) \<and> memo_matches ref m)"
    by (auto simp: tx_memo_def out_msgs_memo_iff split: option.splits)
  also have "\<dots> \<longleftrightarrow> (\<exists>t \<in> set (memos tx). t \<noteq> [] \<and> sublist ref t)"
    unfolding memo_matches_iff in_memos Bex_def by blast
  finally show ?thesis .
qed

lemma native_rail_memos:
  "native_rail ref txs \<longleftrightarrow> (\<exists>tx \<in> set txs. \<exists>t \<in> set (memos tx). t \<noteq> [] \<and> sublist ref t)"
  by (simp add: native_rail_iff tx_memo_iff)

lemma sublist_nonempty: "sublist r t \<Longrightarrow> r \<noteq> [] \<Longrightarrow> t \<noteq> []"
  by (auto simp: sublist_def)

text \<open>
  C5. For a pending payment with a (non-empty) reference \<open>R\<close> and any batch of
  transactions, the native-rail check matches exactly when the text of an inbound or
  outbound message contains \<open>R\<close>: in particular when a text is \<open>R\<close> itself, and when
  it is \<open>R\<close> with characters before or after it. A native match makes the payment found.
  When no text contains the reference of any pending payment and the token rail finds
  nothing for it, the matcher returns no match. References are never empty: see
  \<open>paymentReference_nonempty\<close>.
\<close>

theorem C5_native_rail_substring:
  assumes "reference p \<noteq> []"
  shows "(native_rail (reference p) txs
            \<longleftrightarrow> (\<exists>tx \<in> set txs. \<exists>t \<in> set (memos tx). sublist (reference p) t))
       \<and> ((\<exists>tx \<in> set txs. reference p \<in> set (memos tx)) \<longrightarrow> native_rail (reference p) txs)
       \<and> ((\<exists>tx \<in> set txs. \<exists>pre post. pre @ reference p @ post \<in> set (memos tx))
            \<longrightarrow> native_rail (reference p) txs)
       \<and> (native_rail (reference p) txs \<longrightarrow> payment_found cfg txs p)
       \<and> ((\<forall>q \<in> set ps. (\<forall>tx \<in> set txs. \<forall>t \<in> set (memos tx). \<not> sublist (reference q) t)
                          \<and> \<not> token_rail cfg (reference q) txs)
            \<longrightarrow> matcher cfg ps txs = None)"
proof -
  have iff: "native_rail (reference p) txs
            \<longleftrightarrow> (\<exists>tx \<in> set txs. \<exists>t \<in> set (memos tx). sublist (reference p) t)"
    using assms sublist_nonempty by (auto simp: native_rail_memos)
  have exact: "(\<exists>tx \<in> set txs. reference p \<in> set (memos tx)) \<longrightarrow> native_rail (reference p) txs"
    unfolding iff by auto
  have extra: "(\<exists>tx \<in> set txs. \<exists>pre post. pre @ reference p @ post \<in> set (memos tx))
            \<longrightarrow> native_rail (reference p) txs"
    unfolding iff by (metis sublist_appendI)
  have found: "native_rail (reference p) txs \<longrightarrow> payment_found cfg txs p"
    by (simp add: payment_found_def)
  have none: "(\<forall>q \<in> set ps. (\<forall>tx \<in> set txs. \<forall>t \<in> set (memos tx). \<not> sublist (reference q) t)
                          \<and> \<not> token_rail cfg (reference q) txs)
            \<longrightarrow> matcher cfg ps txs = None"
    by (auto simp: matcher_def scan_payments_None payment_found_def native_rail_memos)
  from iff exact extra found none show ?thesis by blast
qed


theorem C5_native_rail_substring_witness:
  "reference (ex_pay 1001) \<noteq> []
   \<and> native_rail (reference (ex_pay 1001))
        [ex_memo_tx (''paid '' @ reference (ex_pay 1001) @ ''!'')]
   \<and> payment_found ex_cfg [ex_memo_tx (''paid '' @ reference (ex_pay 1001) @ ''!'')] (ex_pay 1001)"
proof -
  let ?R = "reference (ex_pay 1001)"
  let ?txs = "[ex_memo_tx (''paid '' @ ?R @ ''!'')]"
  have ne: "?R \<noteq> []"
    by (simp add: ex_pay_def newPayment_def paymentReference_nonempty)
  have "''paid '' @ ?R @ ''!'' \<in> set (memos (ex_memo_tx (''paid '' @ ?R @ ''!'')))"
    by (simp add: memos_def texts_def memo_of_def ex_memo_tx_def)
  then have ex: "\<exists>tx \<in> set ?txs. \<exists>pre post. pre @ ?R @ post \<in> set (memos tx)"
    by (metis list.set_intros(1))
  from C5_native_rail_substring [OF ne, of ?txs ex_cfg "[]"] ex ne
  show ?thesis by blast
qed

text \<open>
  C6. The matcher scans the pending payments most recent first and returns the first one
  found on either rail: the result is a payment \<open>p\<close> exactly when \<open>p\<close> is found and no
  payment recorded after it is. With an older \<open>R1\<close> and a newer \<open>R2\<close>, a batch that
  matches only \<open>R1\<close> gives \<open>R1\<close>, and a batch that matches \<open>R2\<close> gives \<open>R2\<close>, also
  when it matches \<open>R1\<close> as well.
\<close>

theorem C6_newest_pending_payment_first:
  "matcher cfg ps txs = find (payment_found cfg txs) (rev ps)
   \<and> (matcher cfg ps txs = Some p \<longleftrightarrow>
        (\<exists>older newer. ps = older @ p # newer \<and> payment_found cfg txs p
           \<and> (\<forall>q \<in> set newer. \<not> payment_found cfg txs q)))
   \<and> (payment_found cfg txs p \<longleftrightarrow>
        native_rail (reference p) txs \<or> token_rail cfg (reference p) txs)
   \<and> (payment_found cfg txs R1 \<and> \<not> payment_found cfg txs R2
        \<longrightarrow> matcher cfg [R1, R2] txs = Some R1)
   \<and> (payment_found cfg txs R2 \<longrightarrow> matcher cfg [R1, R2] txs = Some R2)"
proof -
  have a: "matcher cfg ps txs = find (payment_found cfg txs) (rev ps)"
    by (simp add: matcher_def scan_payments_find)
  have b: "matcher cfg ps txs = Some p \<longleftrightarrow>
        (\<exists>older newer. ps = older @ p # newer \<and> payment_found cfg txs p
           \<and> (\<forall>q \<in> set newer. \<not> payment_found cfg txs q))"
  proof
    assume "matcher cfg ps txs = Some p"
    then obtain before after where r: "rev ps = before @ p # after"
      and f: "payment_found cfg txs p"
      and n: "\<forall>q \<in> set before. \<not> payment_found cfg txs q"
      unfolding matcher_def scan_payments_Some by blast
    from r have "ps = rev after @ p # rev before"
      by (metis rev_append rev.simps(2) rev_rev_ident append_assoc append_Cons append_Nil)
    with f n show "\<exists>older newer. ps = older @ p # newer \<and> payment_found cfg txs p
           \<and> (\<forall>q \<in> set newer. \<not> payment_found cfg txs q)"
      by (metis set_rev)
  next
    assume "\<exists>older newer. ps = older @ p # newer \<and> payment_found cfg txs p
           \<and> (\<forall>q \<in> set newer. \<not> payment_found cfg txs q)"
    then obtain older newer where r: "ps = older @ p # newer"
      and f: "payment_found cfg txs p"
      and n: "\<forall>q \<in> set newer. \<not> payment_found cfg txs q" by blast
    from r have "rev ps = rev newer @ p # rev older" by simp
    with f n show "matcher cfg ps txs = Some p"
      unfolding matcher_def scan_payments_Some by (metis set_rev)
  qed
  have c: "payment_found cfg txs p \<longleftrightarrow>
        native_rail (reference p) txs \<or> token_rail cfg (reference p) txs"
    by (simp add: payment_found_def)
  have d: "payment_found cfg txs R1 \<and> \<not> payment_found cfg txs R2
        \<longrightarrow> matcher cfg [R1, R2] txs = Some R1"
    by (simp add: matcher_def)
  have e: "payment_found cfg txs R2 \<longrightarrow> matcher cfg [R1, R2] txs = Some R2"
    by (simp add: matcher_def)
  from a b c d e show ?thesis by blast
qed


lemma spec_ex:
  "spec_token_match ex_cfg (reference (ex_pay 1001)) [ex_jetton_tx None (reference (ex_pay 1001))]"
proof -
  let ?R = "reference (ex_pay 1001)"
  have r: "receivedAmount (ex_jetton None ?R) = Some 1000000"
    by code_simp
  have x: "expectedAmount ex_cfg = 1000000"
    by (simp add: ex_cfg_def)
  show ?thesis
    unfolding spec_token_match_def
    by (simp add: ex_jetton_tx_def ex_jetton_msg_def r x) (simp add: ex_jetton_def ex_cfg_def)
qed

text \<open>
  C2 as stated fails. A transfer of the configured token, of the expected amount, whose
  payload is the reference, is no match when its \<open>forward_ton_amount\<close> is absent.
\<close>

theorem C2_token_rail_counterexample:
  "spec_token_match ex_cfg (reference (ex_pay 1001)) [ex_jetton_tx None (reference (ex_pay 1001))]
   \<and> \<not> native_rail (reference (ex_pay 1001)) [ex_jetton_tx None (reference (ex_pay 1001))]
   \<and> \<not> token_rail ex_cfg (reference (ex_pay 1001)) [ex_jetton_tx None (reference (ex_pay 1001))]"
proof -
  let ?R = "reference (ex_pay 1001)"
  have n: "\<not> native_rail ?R [ex_jetton_tx None ?R]"
    by (simp add: tx_memo_def ex_jetton_tx_def ex_jetton_msg_def memo_matches_def memo_of_def)
  have t: "\<not> token_rail ex_cfg ?R [ex_jetton_tx None ?R]"
    by (simp add: ex_jetton_tx_def ex_jetton_msg_def ex_jetton_def jetton_msg_def truthy_def
        split: option.splits)
  from spec_ex n t show ?thesis by blast
qed

text \<open>
  C2, amended. The token-rail check reports a match if and only if some outbound message
  of some transaction is a token transfer whose master contract address is the configured
  one, whose amount parses to an integer not below the expected amount, and whose forward
  payload contains the reference, and moreover the message has a source and a
  destination, the transfer has a truthy \<open>forward_ton_amount\<close>, and the payload is not
  empty.
\<close>

theorem C2_token_rail_conditions:
  "token_rail cfg ref txs \<longleftrightarrow>
     (\<exists>tx \<in> set txs. \<exists>m \<in> set (out_msgs tx). \<exists>b jt received payload.
        decoded_body m = Some b \<and> jetton_transfer b = Some jt \<and>
        jetton_master_address jt = Some (USDT_CONTRACT_ADDRESS cfg) \<and>
        receivedAmount jt = Some received \<and> received \<ge> expectedAmount cfg \<and>
        forward_payload jt = Some payload \<and> sublist ref payload \<and>
        source m \<noteq> None \<and> destination m \<noteq> None \<and>
        truthy (forward_ton_amount jt) \<and> payload \<noteq> [])"
  unfolding token_rail_iff jetton_msg_iff ..

theorem C2_token_rail_conditions_witness:
  "token_rail ex_cfg (reference (ex_pay 1001)) [ex_jetton_tx (Some ''1'') (reference (ex_pay 1001))]"
proof -
  let ?R = "reference (ex_pay 1001)"
  let ?m = "ex_jetton_msg (Some ''1'') ?R"
  have r: "receivedAmount (ex_jetton (Some ''1'') ?R) = Some 1000000"
    by code_simp
  have x: "expectedAmount ex_cfg = 1000000"
    by (simp add: ex_cfg_def)
  have ne: "?R \<noteq> []"
    by (simp add: ex_pay_def newPayment_def paymentReference_nonempty)
  have "decoded_body ?m = Some \<lparr> body_text = None, jetton_transfer = Some (ex_jetton (Some ''1'') ?R) \<rparr>
      \<and> jetton_transfer \<lparr> body_text = None, jetton_transfer = Some (ex_jetton (Some ''1'') ?R) \<rparr>
          = Some (ex_jetton (Some ''1'') ?R)
      \<and> jetton_master_address (ex_jetton (Some ''1'') ?R) = Some (USDT_CONTRACT_ADDRESS ex_cfg)
      \<and> receivedAmount (ex_jetton (Some ''1'') ?R) = Some 1000000
      \<and> 1000000 \<ge> expectedAmount ex_cfg
      \<and> forward_payload (ex_jetton (Some ''1'') ?R) = Some ?R \<and> sublist ?R ?R
      \<and> source ?m \<noteq> None \<and> destination ?m \<noteq> None
      \<and> truthy (forward_ton_amount (ex_jetton (Some ''1'') ?R)) \<and> ?R \<noteq> []"
    using r x ne by (simp add: ex_jetton_msg_def ex_jetton_def ex_cfg_def truthy_def)
  then have "\<exists>tx \<in> set [ex_jetton_tx (Some ''1'') ?R]. \<exists>m \<in> set (out_msgs tx). \<exists>b jt received payload.
        decoded_body m = Some b \<and> jetton_transfer b = Some jt \<and>
        jetton_master_address jt = Some (USDT_CONTRACT_ADDRESS ex_cfg) \<and>
        receivedAmount jt = Some received \<and> received \<ge> expectedAmount ex_cfg \<and>
        forward_payload jt = Some payload \<and> sublist ?R payload \<and>
        source m \<noteq> None \<and> destination m \<noteq> None \<and>
        truthy (forward_ton_amount jt) \<and> payload \<noteq> []"
    unfolding ex_jetton_tx_def by simp
  then show ?thesis
    by (rule C2_token_rail_conditions [THEN iffD2])
qed


theorem C6_newest_pending_payment_first_witness:
  "payment_found ex_cfg [ex_memo_tx (reference (ex_pay 1001))] (ex_pay 1001)
   \<and> \<not> payment_found ex_cfg [ex_memo_tx (reference (ex_pay 1001))] (ex_pay 1002)
   \<and> matcher ex_cfg [ex_pay 1001, ex_pay 1002] [ex_memo_tx (reference (ex_pay 1001))]
       = Some (ex_pay 1001)"
proof -
  let ?txs = "[ex_memo_tx (reference (ex_pay 1001))]"
  have f1: "payment_found ex_cfg ?txs (ex_pay 1001)"
    by code_simp
  have f2: "\<not> payment_found ex_cfg ?txs (ex_pay 1002)"
    by code_simp
  from C6_newest_pending_payment_first [of ex_cfg "[ex_pay 1001, ex_pay 1002]" ?txs
      "ex_pay 1001" "ex_pay 1001" "ex_pay 1002"] f1 f2
  show ?thesis by blast
qed


section \<open>The polling loop and the handler\<close>

declare poll.simps [simp del]

lemma poll_found_at:
  assumes "getTransactions e k = Some txs" and "matcher cfg ps txs = Some p"
    and "k \<le> MAX_ATTEMPTS cfg"
  shows "a \<le> k \<Longrightarrow> \<forall>j. a \<le> j \<and> j < k \<longrightarrow> no_match e cfg ps j \<Longrightarrow>
         poll e cfg ps a = (Found p, map (fetched e) [a..<Suc k])"
proof (induction "k - a" arbitrary: a)
  case 0
  then have "a = k" by simp
  with assms show ?case
    by (subst poll.simps) (simp add: fetched_def)
next
  case (Suc n)
  then have lt: "a < k" and le: "Suc a \<le> k" and n: "n = k - Suc a" by arith+
  from Suc.prems lt have nm: "no_match e cfg ps a" by simp
  have rest: "\<forall>j. Suc a \<le> j \<and> j < k \<longrightarrow> no_match e cfg ps j"
    using Suc.prems by simp
  have IH: "poll e cfg ps (Suc a) = (Found p, map (fetched e) [Suc a..<Suc k])"
    using Suc.hyps(1) [OF n le rest] .
  have up: "[a..<Suc k] = a # [Suc a..<Suc k]"
    using lt by (simp add: upt_conv_Cons)
  from lt assms(3) have amax: "a < MAX_ATTEMPTS cfg" by simp
  show ?case
    using nm amax IH
    by (subst poll.simps) (simp add: up fetched_def no_match_def del: upt_Suc split: option.splits)
qed

lemma poll_all_errors:
  assumes "\<forall>a. getTransactions e a = None"
  shows "a \<le> MAX_ATTEMPTS cfg \<Longrightarrow> 0 < MAX_ATTEMPTS cfg \<Longrightarrow>
         poll e cfg ps a = (ApiError, map (\<lambda>j. GetTransactions j False) [a..<Suc (MAX_ATTEMPTS cfg)])"
proof (induction "MAX_ATTEMPTS cfg - a" arbitrary: a)
  case 0
  then have "a = MAX_ATTEMPTS cfg" by simp
  with assms show ?case
    by (subst poll.simps) simp
next
  case (Suc n)
  then have lt: "a < MAX_ATTEMPTS cfg" and le: "Suc a \<le> MAX_ATTEMPTS cfg"
    and n: "n = MAX_ATTEMPTS cfg - Suc a" by arith+
  have IH: "poll e cfg ps (Suc a)
      = (ApiError, map (\<lambda>j. GetTransactions j False) [Suc a..<Suc (MAX_ATTEMPTS cfg)])"
    using Suc.hyps(1) [OF n le Suc.prems(2)] .
  have up: "[a..<Suc (MAX_ATTEMPTS cfg)] = a # [Suc a..<Suc (MAX_ATTEMPTS cfg)]"
    using lt by (simp add: upt_conv_Cons)
  show ?case
    using lt IH assms
    by (subst poll.simps) (simp add: up del: upt_Suc)
qed

lemma poll_never_found:
  assumes "\<forall>a. \<exists>txs. getTransactions e a = Some txs \<and> matcher cfg ps txs = None"
  shows "poll e cfg ps a = (NotFound, map (\<lambda>j. GetTransactions j True) [a..<Suc (MAX_ATTEMPTS cfg)])"
proof (induction "Suc (MAX_ATTEMPTS cfg) - a" arbitrary: a)
  case 0
  then have "\<not> a \<le> MAX_ATTEMPTS cfg" by simp
  then show ?case
    by (subst poll.simps) simp
next
  case (Suc n)
  then have le: "a \<le> MAX_ATTEMPTS cfg" and n: "n = Suc (MAX_ATTEMPTS cfg) - Suc a" by arith+
  have IH: "poll e cfg ps (Suc a)
      = (NotFound, map (\<lambda>j. GetTransactions j True) [Suc a..<Suc (MAX_ATTEMPTS cfg)])"
    using Suc.hyps(1) [OF n] .
  have up: "[a..<Suc (MAX_ATTEMPTS cfg)] = a # [Suc a..<Suc (MAX_ATTEMPTS cfg)]"
    using le by (simp add: upt_conv_Cons)
  from assms obtain txs where "getTransactions e a = Some txs" "matcher cfg ps txs = None"
    by blast
  then show ?case
    using le IH
    by (subst poll.simps) (simp add: up del: upt_Suc)
qed

lemma unmark_mark:
  "admitted u s \<Longrightarrow>
     (mark_checking u s)\<lparr>checkingPayments := checkingPayments (mark_checking u s) - {checkKey u}\<rparr> = s"
  by (simp add: admitted_def mark_checking_def)

lemma handle_polling:
  assumes "admitted u s" and "pendingPayments s u = Some ps" and "ps \<noteq> []"
    and "sendMessage_ok e Checking"
  shows "handleCheckPayment e cfg c u s =
     (case check_loop e cfg c u ps (mark_checking u s) of
        (Normal, cs, s1) \<Rightarrow>
          (Resolved, send e c Checking # cs,
           s1\<lparr>checkingPayments := checkingPayments s1 - {checkKey u}\<rparr>)
      | (Thrown, cs, s1) \<Rightarrow>
          (if sendMessage_ok e LoopProblem \<or> sendMessage_ok e HandlerProblem
           then Resolved else Rejected,
           send e c Checking # cs @ send e c LoopProblem #
             (if sendMessage_ok e LoopProblem then [] else [send e c HandlerProblem]),
           s1\<lparr>checkingPayments := checkingPayments s1 - {checkKey u}\<rparr>))"
  using assms
  by (simp add: handleCheckPayment_def check_body_def guarded_check_loop_def sent_def
      mark_checking_def Let_def split: prod.splits flow.splits)

lemma handle_verdict:
  assumes "admitted u s" and "pendingPayments s u = Some ps" and "ps \<noteq> []"
    and "sendMessage_ok e Checking"
    and "check_loop e cfg c u ps (mark_checking u s) = (sent e n, fs @ [send e c n], mark_checking u s)"
  shows "handleCheckPayment e cfg c u s
           = (tail_result e n, send e c Checking # fs @ tail_calls e c n, s)"
  using assms(5) unmark_mark [OF assms(1)]
  by (simp add: handle_polling [OF assms(1-4)] sent_def tail_calls_def tail_result_def)

lemma handle_api_error:
  assumes "admitted u s" and "pendingPayments s u = Some ps" and "ps \<noteq> []"
    and "sendMessage_ok e Checking" and "poll e cfg ps 1 = (ApiError, fs)"
  shows "handleCheckPayment e cfg c u s
           = (tail_result e ServiceUnavailable,
              send e c Checking # fs @ tail_calls e c ServiceUnavailable, s)"
  using assms(5) by (intro handle_verdict [OF assms(1-4)]) (simp add: check_loop_def)

lemma handle_not_found:
  assumes "admitted u s" and "pendingPayments s u = Some ps" and "ps \<noteq> []"
    and "sendMessage_ok e Checking" and "poll e cfg ps 1 = (NotFound, fs)"
  shows "handleCheckPayment e cfg c u s
           = (tail_result e PaymentNotFound,
              send e c Checking # fs @ tail_calls e c PaymentNotFound, s)"
  using assms(5) by (intro handle_verdict [OF assms(1-4)]) (simp add: check_loop_def)

lemma handle_found_stored:
  assumes "admitted u s" and "pendingPayments s u = Some ps" and "ps \<noteq> []"
    and "sendMessage_ok e Checking" and "poll e cfg ps 1 = (Found p, fs)"
    and "createSubscription_ok e"
  shows "handleCheckPayment e cfg c u s
           = (tail_result e PaymentConfirmed,
              send e c Checking # fs @
                [CreateSubscription u (reference p) (SUBSCRIPTION_DAYS cfg) True, DeletePending u]
                @ tail_calls e c PaymentConfirmed
                @ (if sendMessage_ok e PaymentConfirmed then [SendImmediateSentence c u] else []),
              s\<lparr>pendingPayments := (pendingPayments s)(u := None)\<rparr>)"
  using assms(5,6) assms(1)
  by (simp add: handle_polling [OF assms(1-4)] check_loop_def confirm_def Let_def
      tail_calls_def tail_result_def admitted_def mark_checking_def)

lemma handle_found_store_fails:
  assumes "admitted u s" and "pendingPayments s u = Some ps" and "ps \<noteq> []"
    and "sendMessage_ok e Checking" and "poll e cfg ps 1 = (Found p, fs)"
    and "\<not> createSubscription_ok e"
  shows "handleCheckPayment e cfg c u s
           = (if sendMessage_ok e LoopProblem \<or> sendMessage_ok e HandlerProblem
              then Resolved else Rejected,
              send e c Checking # fs @
                [CreateSubscription u (reference p) (SUBSCRIPTION_DAYS cfg) False,
                 send e c LoopProblem]
                @ (if sendMessage_ok e LoopProblem then [] else [send e c HandlerProblem]),
              s)"
  using assms(5,6) unmark_mark [OF assms(1)]
  by (simp add: handle_polling [OF assms(1-4)] check_loop_def confirm_def)

lemma outcome_of_append:
  "outcome_of (xs @ ys) = (case outcome_of xs of Some v \<Rightarrow> Some v | None \<Rightarrow> outcome_of ys)"
  by (induction xs rule: outcome_of.induct) (auto split: option.splits)

lemma fetches_only:
  "filter is_fetch (map (\<lambda>j. GetTransactions j (b j)) xs) = map (\<lambda>j. GetTransactions j (b j)) xs"
  "filter is_create (map (\<lambda>j. GetTransactions j (b j)) xs) = []"
  "filter is_delete (map (\<lambda>j. GetTransactions j (b j)) xs) = []"
  "outcome_of (map (\<lambda>j. GetTransactions j (b j)) xs) = None"
  by (induction xs) auto

lemma tail_calls_only:
  "filter is_fetch (tail_calls e c n) = []"
  "filter is_create (tail_calls e c n) = []"
  "filter is_delete (tail_calls e c n) = []"
  by (simp_all add: tail_calls_def send_def)

lemma outcome_of_tail_calls:
  "verdict n = Some v \<Longrightarrow> outcome_of (tail_calls e c n @ rest) = Some v"
  by (simp add: tail_calls_def send_def)

lemma matcher_Nil: "matcher cfg [] txs = None"
  by (simp add: matcher_def)

lemma matcher_member: "matcher cfg ps txs = Some p \<Longrightarrow> p \<in> set ps"
  by (auto simp: matcher_def scan_payments_Some) (metis in_set_conv_decomp set_rev)

text \<open>
  C3. In a run that reaches the polling (the user is admitted, has pending payments, and
  the checking message is sent) with at least one attempt configured, when every ledger
  query fails the handler makes exactly \<open>MAX_ATTEMPTS\<close> queries, one per attempt, and its
  outcome is \<open>TRANSPORT_ERROR\<close>: it sends the service-unavailable message and not the
  not-found message, creates no subscription and leaves the state as it was. When every
  query succeeds and nothing matches, the outcome is \<open>EXHAUSTED\<close>, after the same
  number of queries, with the not-found message. The two outcomes differ.
\<close>

theorem C3_transport_error_after_max_attempts:
  assumes "admitted userId s" and "pendingPayments s userId = Some ps" and "ps \<noteq> []"
    and "0 < MAX_ATTEMPTS cfg"
    and "sendMessage_ok e Checking" and "\<forall>a. getTransactions e a = None"
    and "sendMessage_ok e' Checking"
    and "\<forall>a. \<exists>txs. getTransactions e' a = Some txs \<and> matcher cfg ps txs = None"
  shows "(case handleCheckPayment e cfg chatId userId s of (r, cs, s') \<Rightarrow>
            filter is_fetch cs = map (\<lambda>a. GetTransactions a False) [1..<Suc (MAX_ATTEMPTS cfg)]
          \<and> length (filter is_fetch cs) = MAX_ATTEMPTS cfg
          \<and> outcome_of cs = Some TRANSPORT_ERROR
          \<and> SendMessage chatId ServiceUnavailable (sendMessage_ok e ServiceUnavailable) \<in> set cs
          \<and> SendMessage chatId PaymentNotFound (sendMessage_ok e PaymentNotFound) \<notin> set cs
          \<and> filter is_create cs = [] \<and> filter is_delete cs = [] \<and> s' = s
          \<and> (sendMessage_ok e ServiceUnavailable \<longrightarrow> r = Resolved))
       \<and> (case handleCheckPayment e' cfg chatId userId s of (r, cs, s') \<Rightarrow>
            filter is_fetch cs = map (\<lambda>a. GetTransactions a True) [1..<Suc (MAX_ATTEMPTS cfg)]
          \<and> outcome_of cs = Some EXHAUSTED
          \<and> SendMessage chatId PaymentNotFound (sendMessage_ok e' PaymentNotFound) \<in> set cs)
       \<and> TRANSPORT_ERROR \<noteq> EXHAUSTED"
proof -
  let ?fs = "map (\<lambda>a. GetTransactions a False) [1..<Suc (MAX_ATTEMPTS cfg)]"
  let ?gs = "map (\<lambda>a. GetTransactions a True) [1..<Suc (MAX_ATTEMPTS cfg)]"
  have one: "1 \<le> MAX_ATTEMPTS cfg"
    using assms(4) by simp
  have p: "poll e cfg ps 1 = (ApiError, ?fs)"
    by (rule poll_all_errors [OF assms(6) one assms(4)])
  have h: "handleCheckPayment e cfg chatId userId s
      = (tail_result e ServiceUnavailable,
         send e chatId Checking # ?fs @ tail_calls e chatId ServiceUnavailable, s)"
    by (rule handle_api_error [OF assms(1-3) assms(5) p])
  have q: "poll e' cfg ps 1 = (NotFound, ?gs)"
    by (rule poll_never_found [OF assms(8)])
  have h': "handleCheckPayment e' cfg chatId userId s
      = (tail_result e' PaymentNotFound,
         send e' chatId Checking # ?gs @ tail_calls e' chatId PaymentNotFound, s)"
    by (rule handle_not_found [OF assms(1-3) assms(7) q])
  have len: "length ?fs = MAX_ATTEMPTS cfg"
    by simp
  have out: "outcome_of (send e chatId Checking # ?fs @ tail_calls e chatId ServiceUnavailable)
      = Some TRANSPORT_ERROR"
    using outcome_of_tail_calls [of ServiceUnavailable TRANSPORT_ERROR e chatId "[]"]
    by (simp add: send_def outcome_of_append fetches_only del: upt_Suc)
  have out': "outcome_of (send e' chatId Checking # ?gs @ tail_calls e' chatId PaymentNotFound)
      = Some EXHAUSTED"
    using outcome_of_tail_calls [of PaymentNotFound EXHAUSTED e' chatId "[]"]
    by (simp add: send_def outcome_of_append fetches_only del: upt_Suc)
  have mem: "SendMessage chatId ServiceUnavailable (sendMessage_ok e ServiceUnavailable)
      \<in> set (send e chatId Checking # ?fs @ tail_calls e chatId ServiceUnavailable)"
    by (simp add: tail_calls_def send_def)
  have nmem: "SendMessage chatId PaymentNotFound (sendMessage_ok e PaymentNotFound)
      \<notin> set (send e chatId Checking # ?fs @ tail_calls e chatId ServiceUnavailable)"
    by (auto simp: tail_calls_def send_def)
  have mem': "SendMessage chatId PaymentNotFound (sendMessage_ok e' PaymentNotFound)
      \<in> set (send e' chatId Checking # ?gs @ tail_calls e' chatId PaymentNotFound)"
    by (simp add: tail_calls_def send_def)
  have fl: "filter is_fetch (send e chatId Checking # ?fs @ tail_calls e chatId ServiceUnavailable) = ?fs"
    by (simp add: send_def fetches_only tail_calls_only del: upt_Suc)
  have fl': "filter is_fetch (send e' chatId Checking # ?gs @ tail_calls e' chatId PaymentNotFound) = ?gs"
    by (simp add: send_def fetches_only tail_calls_only del: upt_Suc)
  have cr: "filter is_create (send e chatId Checking # ?fs @ tail_calls e chatId ServiceUnavailable) = []"
    by (simp add: send_def fetches_only tail_calls_only del: upt_Suc)
  have dl: "filter is_delete (send e chatId Checking # ?fs @ tail_calls e chatId ServiceUnavailable) = []"
    by (simp add: send_def fetches_only tail_calls_only del: upt_Suc)
  have res: "sendMessage_ok e ServiceUnavailable \<longrightarrow> tail_result e ServiceUnavailable = Resolved"
    by (simp add: tail_result_def)
  show ?thesis
    unfolding h h' prod.case
    using len out out' mem nmem mem' fl fl' cr dl res by simp
qed

lemma fetched_fun: "fetched e = (\<lambda>j. GetTransactions j (getTransactions e j \<noteq> None))"
  by (rule ext) (simp add: fetched_def)

lemma outcome_of_tail:
  "verdict n = Some v \<Longrightarrow> outcome_of (tail_calls e c n) = Some v"
  by (simp add: tail_calls_def send_def)

lemma ex_bot_pending: "pendingPayments ex_bot ''42'' = Some [ex_pay 1001]"
  by (simp add: ex_bot_def)

lemma ex_bot_admitted: "admitted ''42'' ex_bot"
  by (simp add: admitted_def ex_bot_def)

lemma ex_matcher_empty: "matcher ex_cfg [ex_pay 1001] [] = None"
  by (simp add: matcher_def payment_found_def)

lemma ex_matcher_paid:
  "matcher ex_cfg [ex_pay 1001] [ex_memo_tx (reference (ex_pay 1001))] = Some (ex_pay 1001)"
  by (simp add: matcher_def payment_found_def tx_memo_def ex_memo_tx_def memo_matches_def
      memo_of_def ex_pay_def newPayment_def paymentReference_nonempty)

theorem C3_transport_error_after_max_attempts_witness:
  "admitted ''42'' ex_bot \<and> pendingPayments ex_bot ''42'' = Some [ex_pay 1001]
   \<and> 0 < MAX_ATTEMPTS ex_cfg
   \<and> length (filter is_fetch (fst (snd (handleCheckPayment (ex_env (\<lambda>a. None) True True) ex_cfg 42 ''42'' ex_bot)))) = 3
   \<and> outcome_of (fst (snd (handleCheckPayment (ex_env (\<lambda>a. None) True True) ex_cfg 42 ''42'' ex_bot)))
       = Some TRANSPORT_ERROR
   \<and> outcome_of (fst (snd (handleCheckPayment (ex_env (\<lambda>a. Some []) True True) ex_cfg 42 ''42'' ex_bot)))
       = Some EXHAUSTED"
proof -
  have m: "0 < MAX_ATTEMPTS ex_cfg" "MAX_ATTEMPTS ex_cfg = 3"
    by (simp_all add: ex_cfg_def)
  have c: "sendMessage_ok (ex_env (\<lambda>a. None) True True) Checking"
    "sendMessage_ok (ex_env (\<lambda>a. Some []) True True) Checking"
    by (simp_all add: ex_env_def)
  have d: "\<forall>a. getTransactions (ex_env (\<lambda>a. None) True True) a = None"
    by (simp add: ex_env_def)
  have u: "\<forall>a. \<exists>txs. getTransactions (ex_env (\<lambda>a. Some []) True True) a = Some txs
            \<and> matcher ex_cfg [ex_pay 1001] txs = None"
    by (simp add: ex_env_def ex_matcher_empty)
  have n: "[ex_pay 1001] \<noteq> []"
    by simp
  from C3_transport_error_after_max_attempts
    [OF ex_bot_admitted ex_bot_pending n m(1) c(1) d c(2) u, of 42]
  show ?thesis
    using ex_bot_admitted ex_bot_pending m by (simp add: case_prod_beta)
qed

text \<open>
  C1 as stated fails. The matcher finds the pending payment at the first attempt, the
  store rejects the subscription: the handler sends the message of the inner catch, no
  pending payment is deleted, and the entry of the user is still there.
\<close>

theorem C1_match_confirms_counterexample:
  "matcher ex_cfg [ex_pay 1001] [ex_memo_tx (reference (ex_pay 1001))] = Some (ex_pay 1001)
   \<and> handleCheckPayment (ex_env (\<lambda>a. Some [ex_memo_tx (reference (ex_pay 1001))]) False True)
        ex_cfg 42 ''42'' ex_bot
       = (Resolved,
          [SendMessage 42 Checking True, GetTransactions 1 True,
           CreateSubscription ''42'' (reference (ex_pay 1001)) 30 False,
           SendMessage 42 LoopProblem True],
          ex_bot)
   \<and> list_pending (pendingPayments ex_bot) ''42'' = [ex_pay 1001]"
proof -
  let ?e = "ex_env (\<lambda>a. Some [ex_memo_tx (reference (ex_pay 1001))]) False True"
  have g: "getTransactions ?e 1 = Some [ex_memo_tx (reference (ex_pay 1001))]"
    by (simp add: ex_env_def)
  have k: "1 \<le> MAX_ATTEMPTS ex_cfg"
    by (simp add: ex_cfg_def)
  have p: "poll ?e ex_cfg [ex_pay 1001] 1 = (Found (ex_pay 1001), map (fetched ?e) [1..<Suc 1])"
    by (rule poll_found_at [OF g ex_matcher_paid k]) simp_all
  have c: "sendMessage_ok ?e Checking" and f: "\<not> createSubscription_ok ?e"
    by (simp_all add: ex_env_def)
  have n: "[ex_pay 1001] \<noteq> []"
    by simp
  have "handleCheckPayment ?e ex_cfg 42 ''42'' ex_bot
       = (Resolved,
          [SendMessage 42 Checking True, GetTransactions 1 True,
           CreateSubscription ''42'' (reference (ex_pay 1001)) 30 False,
           SendMessage 42 LoopProblem True],
          ex_bot)"
    unfolding handle_found_store_fails [OF ex_bot_admitted ex_bot_pending n c p f]
    by (simp add: ex_env_def send_def fetched_def ex_cfg_def)
  then show ?thesis
    using ex_matcher_paid by (simp add: list_pending_def ex_bot_pending)
qed

text \<open>
  C1, amended. In an invocation in which the matcher finds a pending payment \<open>p\<close> at
  attempt \<open>k\<close> (nothing found at the attempts before) and the store accepts the
  subscription, the outcome is \<open>CONFIRMED\<close>, exactly one subscription is created, for the
  user, with the reference of \<open>p\<close> and the configured number of days, exactly one delete
  of the pending payments is made, and afterwards the user has no entry: the list of the
  pending payments is empty.
\<close>

theorem C1_match_confirms_when_stored:
  assumes "admitted userId s" and "pendingPayments s userId = Some ps"
    and "sendMessage_ok e Checking"
    and "1 \<le> k" and "k \<le> MAX_ATTEMPTS cfg"
    and "getTransactions e k = Some txs" and "matcher cfg ps txs = Some p"
    and "\<forall>j. 1 \<le> j \<and> j < k \<longrightarrow> no_match e cfg ps j"
    and "createSubscription_ok e"
  shows "case handleCheckPayment e cfg chatId userId s of (r, cs, s') \<Rightarrow>
            outcome_of cs = Some CONFIRMED
          \<and> filter is_create cs
              = [CreateSubscription userId (reference p) (SUBSCRIPTION_DAYS cfg) True]
          \<and> filter is_delete cs = [DeletePending userId]
          \<and> pendingPayments s' userId = None
          \<and> list_pending (pendingPayments s') userId = []
          \<and> length (filter is_fetch cs) = k
          \<and> p \<in> set ps
          \<and> admitted userId s'"
proof -
  let ?fs = "map (fetched e) [1..<Suc k]"
  let ?cs = "send e chatId Checking # ?fs @
                [CreateSubscription userId (reference p) (SUBSCRIPTION_DAYS cfg) True,
                 DeletePending userId]
                @ tail_calls e chatId PaymentConfirmed
                @ (if sendMessage_ok e PaymentConfirmed then [SendImmediateSentence chatId userId] else [])"
  have ne: "ps \<noteq> []"
    using assms(7) matcher_Nil by fastforce
  have p: "poll e cfg ps 1 = (Found p, ?fs)"
    using poll_found_at [OF assms(6,7,5,4)] assms(8) by simp
  have h: "handleCheckPayment e cfg chatId userId s
      = (tail_result e PaymentConfirmed, ?cs, s\<lparr>pendingPayments := (pendingPayments s)(userId := None)\<rparr>)"
    by (rule handle_found_stored [OF assms(1,2) ne assms(3) p assms(9)])
  have out: "outcome_of ?cs = Some CONFIRMED"
    using outcome_of_tail [of PaymentConfirmed CONFIRMED e chatId]
    by (simp add: send_def outcome_of_append fetched_fun fetches_only del: upt_Suc)
  have cr: "filter is_create ?cs
      = [CreateSubscription userId (reference p) (SUBSCRIPTION_DAYS cfg) True]"
    by (simp add: send_def fetched_fun fetches_only tail_calls_only del: upt_Suc)
  have dl: "filter is_delete ?cs = [DeletePending userId]"
    by (simp add: send_def fetched_fun fetches_only tail_calls_only del: upt_Suc)
  have fl: "length (filter is_fetch ?cs) = k"
    by (simp add: send_def fetched_fun fetches_only tail_calls_only del: upt_Suc)
  have ad: "admitted userId (s\<lparr>pendingPayments := (pendingPayments s)(userId := None)\<rparr>)"
    using assms(1) by (simp add: admitted_def)
  show ?thesis
    unfolding h prod.case
    using out cr dl fl ad matcher_member [OF assms(7)] by (simp add: list_pending_def)
qed

theorem C1_match_confirms_when_stored_witness:
  "admitted ''42'' ex_bot \<and> pendingPayments ex_bot ''42'' = Some [ex_pay 1001]
   \<and> matcher ex_cfg [ex_pay 1001] [ex_memo_tx (reference (ex_pay 1001))] = Some (ex_pay 1001)
   \<and> outcome_of (fst (snd (handleCheckPayment
        (ex_env (\<lambda>a. if a = 3 then Some [ex_memo_tx (reference (ex_pay 1001))] else Some []) True True)
        ex_cfg 42 ''42'' ex_bot))) = Some CONFIRMED
   \<and> filter is_create (fst (snd (handleCheckPayment
        (ex_env (\<lambda>a. if a = 3 then Some [ex_memo_tx (reference (ex_pay 1001))] else Some []) True True)
        ex_cfg 42 ''42'' ex_bot)))
       = [CreateSubscription ''42'' (reference (ex_pay 1001)) 30 True]
   \<and> filter is_delete (fst (snd (handleCheckPayment
        (ex_env (\<lambda>a. if a = 3 then Some [ex_memo_tx (reference (ex_pay 1001))] else Some []) True True)
        ex_cfg 42 ''42'' ex_bot))) = [DeletePending ''42'']
   \<and> list_pending (pendingPayments (snd (snd (handleCheckPayment
        (ex_env (\<lambda>a. if a = 3 then Some [ex_memo_tx (reference (ex_pay 1001))] else Some []) True True)
        ex_cfg 42 ''42'' ex_bot)))) ''42'' = []"
proof -
  let ?e = "ex_env (\<lambda>a. if a = 3 then Some [ex_memo_tx (reference (ex_pay 1001))] else Some []) True True"
  have c: "sendMessage_ok ?e Checking" and st: "createSubscription_ok ?e"
    by (simp_all add: ex_env_def)
  have k: "(1::nat) \<le> 3" "3 \<le> MAX_ATTEMPTS ex_cfg"
    by (simp_all add: ex_cfg_def)
  have g: "getTransactions ?e 3 = Some [ex_memo_tx (reference (ex_pay 1001))]"
    by (simp add: ex_env_def)
  have nm: "\<forall>j. 1 \<le> j \<and> j < 3 \<longrightarrow> no_match ?e ex_cfg [ex_pay 1001] j"
    by (simp add: no_match_def ex_env_def ex_matcher_empty)
  from C1_match_confirms_when_stored
    [OF ex_bot_admitted ex_bot_pending c k g ex_matcher_paid nm st, of 42]
  show ?thesis
    using ex_bot_admitted ex_bot_pending ex_matcher_paid
    by (simp add: case_prod_beta ex_cfg_def)
qed

lemma handle_rejected:
  assumes "\<not> admitted u s"
  shows "handleCheckPayment e cfg c u s
     = (if sendMessage_ok e AlreadyChecking then Resolved else Rejected,
        [SendMessage c AlreadyChecking (sendMessage_ok e AlreadyChecking)], s)"
  using assms by (simp add: handleCheckPayment_def send_def)

lemma poll_first_fetch:
  assumes "0 < MAX_ATTEMPTS cfg"
  shows "\<exists>r b fs. poll e cfg ps 1 = (r, GetTransactions 1 b # fs)"
  using assms
  by (subst poll.simps) (auto split: option.splits prod.splits)

lemma check_loop_calls:
  "poll e cfg ps 1 = (r, fs) \<Longrightarrow> \<exists>f rest s1. check_loop e cfg c u ps s = (f, fs @ rest, s1)"
  by (cases r) (auto simp: check_loop_def split: prod.splits)

lemma handle_polling_fetches:
  assumes "admitted u s" and "pendingPayments s u = Some ps" and "ps \<noteq> []"
    and "sendMessage_ok e Checking" and "0 < MAX_ATTEMPTS cfg"
  shows "filter is_fetch (fst (snd (handleCheckPayment e cfg c u s))) \<noteq> []"
proof -
  from poll_first_fetch [OF assms(5)] obtain r b fs
    where p: "poll e cfg ps 1 = (r, GetTransactions 1 b # fs)" by blast
  from check_loop_calls [OF p] obtain f rest s1
    where l: "check_loop e cfg c u ps (mark_checking u s) = (f, (GetTransactions 1 b # fs) @ rest, s1)"
    by blast
  show ?thesis
    unfolding handle_polling [OF assms(1-4)] l
    by (cases f) simp_all
qed

text \<open>
  C7. When the checking flag of the user is set, the handler sends the already-checking
  message and nothing else: no ledger query, no subscription, no delete, and the state is
  unchanged; its outcome \<open>ALREADY_CHECKING\<close> is none of the other outcomes. Of two
  invocations for one user, the first, admitted and with pending payments, polls the ledger
  and holds the flag from its first step on (no \<open>await\<close> separates the test from the
  setting); the second, started in that state, is rejected and does not poll.
\<close>

theorem C7_second_trigger_rejected:
  "(\<not> admitted userId s \<longrightarrow>
      (case handleCheckPayment e cfg chatId userId s of (r, cs, s') \<Rightarrow>
         cs = [SendMessage chatId AlreadyChecking (sendMessage_ok e AlreadyChecking)]
       \<and> outcome_of cs = Some ALREADY_CHECKING
       \<and> filter is_fetch cs = [] \<and> filter is_create cs = [] \<and> filter is_delete cs = []
       \<and> s' = s))
   \<and> (admitted userId s0 \<and> pendingPayments s0 userId = Some ps \<and> ps \<noteq> []
        \<and> sendMessage_ok e1 Checking \<and> 0 < MAX_ATTEMPTS cfg \<longrightarrow>
        filter is_fetch (fst (snd (handleCheckPayment e1 cfg chatId userId s0))) \<noteq> []
      \<and> \<not> admitted userId (mark_checking userId s0)
      \<and> outcome_of (fst (snd (handleCheckPayment e2 cfg chatId userId (mark_checking userId s0))))
          = Some ALREADY_CHECKING
      \<and> filter is_fetch (fst (snd (handleCheckPayment e2 cfg chatId userId (mark_checking userId s0))))
          = [])
   \<and> ALREADY_CHECKING \<notin> {CONFIRMED, EXHAUSTED, TRANSPORT_ERROR, NO_PENDING_PAYMENT}"
proof -
  have a: "\<not> admitted userId s \<longrightarrow>
      (case handleCheckPayment e cfg chatId userId s of (r, cs, s') \<Rightarrow>
         cs = [SendMessage chatId AlreadyChecking (sendMessage_ok e AlreadyChecking)]
       \<and> outcome_of cs = Some ALREADY_CHECKING
       \<and> filter is_fetch cs = [] \<and> filter is_create cs = [] \<and> filter is_delete cs = []
       \<and> s' = s)"
    by (simp add: handle_rejected)
  have m: "\<not> admitted userId (mark_checking userId s0)"
    by (simp add: admitted_def mark_checking_def)
  have b: "admitted userId s0 \<and> pendingPayments s0 userId = Some ps \<and> ps \<noteq> []
        \<and> sendMessage_ok e1 Checking \<and> 0 < MAX_ATTEMPTS cfg \<longrightarrow>
        filter is_fetch (fst (snd (handleCheckPayment e1 cfg chatId userId s0))) \<noteq> []
      \<and> \<not> admitted userId (mark_checking userId s0)
      \<and> outcome_of (fst (snd (handleCheckPayment e2 cfg chatId userId (mark_checking userId s0))))
          = Some ALREADY_CHECKING
      \<and> filter is_fetch (fst (snd (handleCheckPayment e2 cfg chatId userId (mark_checking userId s0))))
          = []"
    using handle_polling_fetches [of userId s0 ps e1 cfg chatId] m
    by (simp add: handle_rejected [OF m])
  from a b show ?thesis by simp
qed

theorem C7_second_trigger_rejected_witness:
  "admitted ''42'' ex_bot
   \<and> filter is_fetch (fst (snd (handleCheckPayment (ex_env (\<lambda>a. Some []) True True) ex_cfg 42 ''42'' ex_bot))) \<noteq> []
   \<and> handleCheckPayment (ex_env (\<lambda>a. Some []) True True) ex_cfg 42 ''42'' (mark_checking ''42'' ex_bot)
       = (Resolved, [SendMessage 42 AlreadyChecking True], mark_checking ''42'' ex_bot)"
proof -
  let ?e = "ex_env (\<lambda>a. Some []) True True"
  have n: "\<not> admitted ''42'' (mark_checking ''42'' ex_bot)"
    by (simp add: admitted_def mark_checking_def)
  have hyp: "admitted ''42'' ex_bot \<and> pendingPayments ex_bot ''42'' = Some [ex_pay 1001]
      \<and> [ex_pay 1001] \<noteq> [] \<and> sendMessage_ok ?e Checking \<and> 0 < MAX_ATTEMPTS ex_cfg"
    using ex_bot_admitted ex_bot_pending by (simp add: ex_env_def ex_cfg_def)
  from C7_second_trigger_rejected
    [where userId = "''42''" and s = "mark_checking ''42'' ex_bot" and e = ?e and cfg = ex_cfg
      and chatId = 42 and ?s0.0 = ex_bot and ps = "[ex_pay 1001]" and ?e1.0 = ?e and ?e2.0 = ?e]
  have "(case handleCheckPayment ?e ex_cfg 42 ''42'' (mark_checking ''42'' ex_bot) of (r, cs, s') \<Rightarrow>
         cs = [SendMessage 42 AlreadyChecking (sendMessage_ok ?e AlreadyChecking)]
       \<and> s' = mark_checking ''42'' ex_bot)
     \<and> filter is_fetch (fst (snd (handleCheckPayment ?e ex_cfg 42 ''42'' ex_bot))) \<noteq> []"
    using n hyp by (simp add: case_prod_beta)
  moreover have "fst (handleCheckPayment ?e ex_cfg 42 ''42'' (mark_checking ''42'' ex_bot)) = Resolved"
    by (simp add: handle_rejected [OF n] ex_env_def)
  ultimately show ?thesis
    using ex_bot_admitted by (simp add: case_prod_beta prod_eq_iff ex_env_def)
qed

lemma check_loop_flags:
  "checkingPayments (snd (snd (check_loop e cfg c u ps s))) = checkingPayments s"
proof -
  obtain r fs where p: "poll e cfg ps 1 = (r, fs)"
    by (cases "poll e cfg ps 1")
  show ?thesis
    using p by (cases r) (simp_all add: check_loop_def confirm_def Let_def)
qed

lemma checking_flag_released:
  assumes "admitted u s"
    and "sendMessage_ok e Checking \<or> sendMessage_ok e HandlerProblem
         \<or> list_pending (pendingPayments s) u = []"
  shows "admitted u (snd (snd (handleCheckPayment e cfg c u s)))"
proof (cases "list_pending (pendingPayments s) u = []")
  case True
  then have "check_body e cfg c u (mark_checking u s) = no_pending e c u (mark_checking u s)"
    by (auto simp: check_body_def list_pending_def mark_checking_def split: option.splits)
  then show ?thesis
    using assms(1)
    by (simp add: handleCheckPayment_def no_pending_def sent_def admitted_def mark_checking_def)
next
  case False
  then obtain ps where ps: "pendingPayments s u = Some ps" "ps \<noteq> []"
    by (auto simp: list_pending_def split: option.splits)
  show ?thesis
  proof (cases "sendMessage_ok e Checking")
    case True
    obtain f cs s1 where l: "check_loop e cfg c u ps (mark_checking u s) = (f, cs, s1)"
      by (cases "check_loop e cfg c u ps (mark_checking u s)")
    show ?thesis
      unfolding handle_polling [OF assms(1) ps True] l
      by (cases f) (simp_all add: admitted_def)
  next
    case no: False
    with assms(2) False have "sendMessage_ok e HandlerProblem" by simp
    with no ps assms(1) show ?thesis
      by (simp add: handleCheckPayment_def check_body_def mark_checking_def admitted_def)
  qed
qed

text \<open>
  C10 fails on the code. With the chat transport down, the checking message (line 511)
  is rejected, the outer catch sends its message first (line 697), that is rejected too,
  and the deletion of the flag after it (lines 699-701) is never reached: the promise is
  rejected and the flag stays. The next check of the same user, with the transport up
  again, is answered with already-checking. In every other case the flag is released:
  see \<open>checking_flag_released\<close>.
\<close>

theorem C10_checking_flag_stuck:
  "admitted ''42'' ex_bot
   \<and> handleCheckPayment (ex_env (\<lambda>a. Some []) True False) ex_cfg 42 ''42'' ex_bot
       = (Rejected, [SendMessage 42 Checking False, SendMessage 42 HandlerProblem False],
          mark_checking ''42'' ex_bot)
   \<and> checkKey ''42'' \<in> checkingPayments (mark_checking ''42'' ex_bot)
   \<and> handleCheckPayment (ex_env (\<lambda>a. Some []) True True) ex_cfg 42 ''42'' (mark_checking ''42'' ex_bot)
       = (Resolved, [SendMessage 42 AlreadyChecking True], mark_checking ''42'' ex_bot)"
proof -
  have n: "\<not> admitted ''42'' (mark_checking ''42'' ex_bot)"
    by (simp add: admitted_def mark_checking_def)
  have 1: "handleCheckPayment (ex_env (\<lambda>a. Some []) True False) ex_cfg 42 ''42'' ex_bot
       = (Rejected, [SendMessage 42 Checking False, SendMessage 42 HandlerProblem False],
          mark_checking ''42'' ex_bot)"
    using ex_bot_admitted
    by (simp add: handleCheckPayment_def check_body_def ex_env_def send_def mark_checking_def
        ex_bot_def)
  have 2: "handleCheckPayment (ex_env (\<lambda>a. Some []) True True) ex_cfg 42 ''42'' (mark_checking ''42'' ex_bot)
       = (Resolved, [SendMessage 42 AlreadyChecking True], mark_checking ''42'' ex_bot)"
    by (simp add: handle_rejected [OF n] ex_env_def)
  from 1 2 ex_bot_admitted show ?thesis
    by (simp add: mark_checking_def)
qed

section \<open>Deduplication and fan-out\<close>

lemma callback_first_occurrence:
  assumes "callbackId q \<notin> processedCallbacks s"
  shows "fst (on_callback_query h q s) = True"
    and "h q = Resolved \<Longrightarrow>
           processedCallbacks (snd (on_callback_query h q s)) = insert (callbackId q) (processedCallbacks s)"
    and "h q = Rejected \<Longrightarrow> snd (on_callback_query h q s) = s"
  using assms by (auto simp: on_callback_query_def Let_def split: completion.splits)

lemma callback_repeat_suppressed:
  assumes "callbackId q \<in> processedCallbacks s"
  shows "on_callback_query h q s = (False, s)"
  using assms by (simp add: on_callback_query_def)

lemma message_first_occurrence:
  assumes "text_event msg" and "messageId msg \<notin> processedMessages s"
  shows "on_message h msg s
           = (True, s\<lparr>processedMessages := insert (messageId msg) (processedMessages s)\<rparr>)"
  using assms
  by (auto simp: on_message_def text_event_def truthy_def Let_def
      split: option.splits completion.splits)

lemma message_repeat_suppressed:
  assumes "messageId msg \<in> processedMessages s"
  shows "on_message h msg s = (False, s)"
  using assms by (simp add: on_message_def)

lemma message_key_kept:
  "processedMessages s \<subseteq> processedMessages (snd (on_message h msg s))"
  by (auto simp: on_message_def Let_def split: completion.splits)

lemma ex_messageId: "messageId ex_msg = ''7_42''"
  by code_simp

text \<open>
  C4 fails on the code for the keys of text messages. The handler of the first occurrence
  of a message is rejected, and the key stays in the set: the next occurrence of the same
  message is suppressed. A callback query whose handler is rejected is unmarked (line 80)
  and one whose handler is resolved stays marked. The first occurrence is processed and a
  repeat is suppressed for both kinds of key: see \<open>callback_first_occurrence\<close>,
  \<open>callback_repeat_suppressed\<close>, \<open>message_first_occurrence\<close> and
  \<open>message_repeat_suppressed\<close>.
\<close>

theorem C4_message_key_not_unmarked:
  "on_message (\<lambda>m. Rejected) ex_msg ex_dedup
       = (True, \<lparr> processedCallbacks = {}, processedMessages = {''7_42''} \<rparr>)
   \<and> on_message (\<lambda>m. Resolved) ex_msg \<lparr> processedCallbacks = {}, processedMessages = {''7_42''} \<rparr>
       = (False, \<lparr> processedCallbacks = {}, processedMessages = {''7_42''} \<rparr>)
   \<and> on_callback_query (\<lambda>q. Rejected) ex_callback ex_dedup = (True, ex_dedup)
   \<and> on_callback_query (\<lambda>q. Resolved) ex_callback ex_dedup
       = (True, \<lparr> processedCallbacks = {''9001_check_payment_42''}, processedMessages = {} \<rparr>)"
proof -
  have te: "text_event ex_msg"
    by (simp add: text_event_def ex_msg_def truthy_def startsWith_def)
  have 1: "on_message (\<lambda>m. Rejected) ex_msg ex_dedup
       = (True, \<lparr> processedCallbacks = {}, processedMessages = {''7_42''} \<rparr>)"
    by (simp add: message_first_occurrence [OF te] ex_messageId ex_dedup_def)
  have 2: "on_message (\<lambda>m. Resolved) ex_msg \<lparr> processedCallbacks = {}, processedMessages = {''7_42''} \<rparr>
       = (False, \<lparr> processedCallbacks = {}, processedMessages = {''7_42''} \<rparr>)"
    by (simp add: message_repeat_suppressed ex_messageId)
  have k: "callbackId ex_callback = ''9001_check_payment_42''"
    by (simp add: callbackId_def ex_callback_def)
  have 3: "on_callback_query (\<lambda>q. Rejected) ex_callback ex_dedup = (True, ex_dedup)"
    by (simp add: on_callback_query_def k ex_dedup_def)
  have 4: "on_callback_query (\<lambda>q. Resolved) ex_callback ex_dedup
       = (True, \<lparr> processedCallbacks = {''9001_check_payment_42''}, processedMessages = {} \<rparr>)"
    by (simp add: on_callback_query_def k ex_dedup_def)
  from 1 2 3 4 show ?thesis by simp
qed

lemma generate_fold_cache:
  "fst (foldl (generate_level e) (m, cs) ls) level
     = (if level \<in> set ls
        then (case generateEnglishSentence e level of None \<Rightarrow> m level | Some d \<Rightarrow> Some d)
        else m level)"
proof (induction ls arbitrary: m cs rule: rev_induct)
  case Nil
  then show ?case by simp
next
  case (snoc l ls)
  obtain m' cs' where f: "foldl (generate_level e) (m, cs) ls = (m', cs')"
    by (cases "foldl (generate_level e) (m, cs) ls")
  from snoc [of m cs] f
  have IH: "m' level = (if level \<in> set ls
        then (case generateEnglishSentence e level of None \<Rightarrow> m level | Some d \<Rightarrow> Some d)
        else m level)"
    by simp
  have step: "foldl (generate_level e) (m, cs) (ls @ [l]) = generate_level e (m', cs') l"
    by (simp add: f)
  show ?case
    unfolding step using IH by (auto simp: generate_level_def split: option.splits)
qed

lemma generate_fold_calls:
  "filter is_add (snd (foldl (generate_level e) (m, cs) ls)) = filter is_add cs"
proof (induction ls arbitrary: m cs rule: rev_induct)
  case Nil
  then show ?case by simp
next
  case (snoc l ls)
  obtain m' cs' where f: "foldl (generate_level e) (m, cs) ls = (m', cs')"
    by (cases "foldl (generate_level e) (m, cs) ls")
  from snoc [of m cs] f have "filter is_add cs' = filter is_add cs"
    by simp
  have step: "foldl (generate_level e) (m, cs) (ls @ [l]) = generate_level e (m', cs') l"
    by (simp add: f)
  show ?case
    unfolding step using \<open>filter is_add cs' = filter is_add cs\<close>
    by (simp add: generate_level_def split: option.splits)
qed

lemma generate_all_cache:
  "fst (generate_all e) level
     = (if level \<in> {1, 2, 3, 4, 5} then generateEnglishSentence e level else None)"
  unfolding generate_all_def generate_fold_cache by (simp split: option.splits)

lemma generate_all_calls: "filter is_add (snd (generate_all e)) = []"
  unfolding generate_all_def generate_fold_calls by simp

lemma queue_user_enqueue:
  "filter is_add (queue_user e (fst (generate_all e)) i user) = enqueue_of e i user"
  by (simp add: queue_user_def enqueue_of_def generate_all_cache split: option.splits)

lemma queue_users_enqueue:
  "filter is_add (queue_users e (fst (generate_all e)) i rows)
     = concat (map (\<lambda>(j, user). enqueue_of e j user) (enumerate i rows))"
  by (induction rows arbitrary: i) (simp_all add: queue_user_enqueue)

lemma enqueue_of_Some:
  assumes "difficulty_level user \<in> {1, 2, 3, 4, 5}"
    and "generateEnglishSentence e (difficulty_level user) = Some d"
    and "saveSentence_ok e i"
    and "parseInt (telegram_user_id user) (Some 10) = Some chatId"
  shows "enqueue_of e i user = [AddMessage chatId (createDailyMessage e d) (addMessage_ok e i)]"
  using assms by (simp add: enqueue_of_def)

lemma enqueue_of_None:
  assumes "difficulty_level user \<notin> {1, 2, 3, 4, 5}
         \<or> generateEnglishSentence e (difficulty_level user) = None
         \<or> \<not> saveSentence_ok e i
         \<or> parseInt (telegram_user_id user) (Some 10) = None"
  shows "enqueue_of e i user = []"
  using assms by (auto simp: enqueue_of_def split: option.splits)

text \<open>
  C9 as stated fails. One eligible user at level 1, the sentence of level 1 generated,
  \<open>saveSentence\<close> failing for the user: the run makes no enqueue call.
\<close>

theorem C9_fanout_counterexample:
  "getActiveUsers (ex_sched [ex_user ''42'' 1] (\<lambda>l. Some (ex_sentence ''Hello.'')) (\<lambda>i. False))
       = Some [ex_user ''42'' 1]
   \<and> generateEnglishSentence
        (ex_sched [ex_user ''42'' 1] (\<lambda>l. Some (ex_sentence ''Hello.'')) (\<lambda>i. False)) 1
       = Some (ex_sentence ''Hello.'')
   \<and> sendDailyMessages (ex_sched [ex_user ''42'' 1] (\<lambda>l. Some (ex_sentence ''Hello.'')) (\<lambda>i. False))
       = (Resolved,
          [Generate 1 True, Generate 2 True, Generate 3 True, Generate 4 True, Generate 5 True,
           SaveSentence (ex_sentence ''Hello.'') 1 False])"
  by (simp add: sendDailyMessages_def generate_all_def generate_level_def queue_user_def
      ex_sched_def ex_user_def)

text \<open>
  C9, amended. A run always completes without raising. Its enqueue calls are, row by row
  in the order of the query result, one call for every row whose level is one of 1 to 5
  with a generated sentence, whose sentence was saved and whose user id is a number, and
  none for any other row; the call carries the message laid out from the cached sentence
  of the level of the row, so rows of one level carry the same message. A failed
  generation, a failed save or a failed enqueue of one row changes nothing for the others.
\<close>

theorem C9_fanout_one_enqueue_per_deliverable_row:
  "fst (sendDailyMessages e) = Resolved
   \<and> (getActiveUsers e = None \<longrightarrow> snd (sendDailyMessages e) = [])
   \<and> (getActiveUsers e = Some rows \<longrightarrow>
        filter is_add (snd (sendDailyMessages e))
          = concat (map (\<lambda>(i, user). enqueue_of e i user) (enumerate 0 rows)))
   \<and> (difficulty_level user \<in> {1, 2, 3, 4, 5}
        \<and> generateEnglishSentence e (difficulty_level user) = Some d
        \<and> saveSentence_ok e i
        \<and> parseInt (telegram_user_id user) (Some 10) = Some chatId
        \<longrightarrow> enqueue_of e i user = [AddMessage chatId (createDailyMessage e d) (addMessage_ok e i)])
   \<and> (difficulty_level user \<notin> {1, 2, 3, 4, 5}
        \<or> generateEnglishSentence e (difficulty_level user) = None
        \<or> \<not> saveSentence_ok e i
        \<or> parseInt (telegram_user_id user) (Some 10) = None
        \<longrightarrow> enqueue_of e i user = [])"
proof -
  have r: "fst (sendDailyMessages e) = Resolved"
    by (simp add: sendDailyMessages_def split: option.splits prod.splits)
  have n: "getActiveUsers e = None \<longrightarrow> snd (sendDailyMessages e) = []"
    by (simp add: sendDailyMessages_def)
  have a: "getActiveUsers e = Some rows \<longrightarrow>
        filter is_add (snd (sendDailyMessages e))
          = concat (map (\<lambda>(i, user). enqueue_of e i user) (enumerate 0 rows))"
  proof
    assume g: "getActiveUsers e = Some rows"
    obtain m cs where ga: "generate_all e = (m, cs)"
      by (cases "generate_all e")
    have m: "m = fst (generate_all e)" and cs: "filter is_add cs = []"
      using ga generate_all_calls [of e] by simp_all
    show "filter is_add (snd (sendDailyMessages e))
          = concat (map (\<lambda>(i, user). enqueue_of e i user) (enumerate 0 rows))"
      by (simp add: sendDailyMessages_def g ga cs) (simp add: m queue_users_enqueue)
  qed
  from r n a enqueue_of_Some [of user e d i chatId] enqueue_of_None [of user e i]
  show ?thesis by blast
qed

theorem C9_fanout_one_enqueue_per_deliverable_row_witness:
  "filter is_add (snd (sendDailyMessages
      (ex_sched [ex_user ''11'' 1, ex_user ''12'' 1, ex_user ''13'' 3]
         (\<lambda>l. if l = 3 then None else Some (ex_sentence ''Hello.'')) (\<lambda>i. True))))
     = [AddMessage 11 ''Hello.'' True, AddMessage 12 ''Hello.'' True]"
proof -
  let ?rows = "[ex_user ''11'' 1, ex_user ''12'' 1, ex_user ''13'' 3]"
  let ?e = "ex_sched ?rows (\<lambda>l. if l = 3 then None else Some (ex_sentence ''Hello.'')) (\<lambda>i. True)"
  have g: "getActiveUsers ?e = Some ?rows"
    by (simp add: ex_sched_def)
  have p: "parseInt ''11'' (Some 10) = Some 11" "parseInt ''12'' (Some 10) = Some 12"
    by code_simp+
  have e1: "enqueue_of ?e 0 (ex_user ''11'' 1) = [AddMessage 11 ''Hello.'' True]"
    by (simp add: enqueue_of_def ex_sched_def ex_user_def ex_sentence_def p)
  have e2: "enqueue_of ?e (Suc 0) (ex_user ''12'' 1) = [AddMessage 12 ''Hello.'' True]"
    by (simp add: enqueue_of_def ex_sched_def ex_user_def ex_sentence_def p)
  have e3: "enqueue_of ?e (Suc (Suc 0)) (ex_user ''13'' 3) = []"
    by (simp add: enqueue_of_def ex_sched_def ex_user_def)
  from C9_fanout_one_enqueue_per_deliverable_row [where e = ?e and rows = ?rows] g
  have "filter is_add (snd (sendDailyMessages ?e))
          = concat (map (\<lambda>(i, user). enqueue_of ?e i user) (enumerate 0 ?rows))"
    by blast
  then show ?thesis
    by (simp add: enumerate_simps e1 e2 e3 del: ex_sched_def)
qed

end
